theory Spec2Isabelle
  imports Complex_Main "HOL-Library.AList"
begin

section \<open>Inference client (AIWorkerService)\<close>

text \<open>
  The client object of \<^verbatim>\<open>AIWorkerService.ts\<close>. The worker handle is modelled by a
  boolean (\<open>worker\<close> is \<open>True\<close> when the field is not \<^verbatim>\<open>null\<close>), the map of pending
  requests by the list of its request ids. Times are milliseconds as returned by
  \<^verbatim>\<open>Date.now()\<close>.
\<close>

record AIWorkerService =
  worker :: bool
  isReady :: bool
  pendingRequests :: "string list"
  restartAttempts :: nat
  lastRestartTime :: int

definition MAX_RESTART_ATTEMPTS :: nat where
  "MAX_RESTART_ATTEMPTS = 3"

definition MIN_RESTART_INTERVAL :: int where
  "MIN_RESTART_INTERVAL = 5000"

text \<open>What \<^verbatim>\<open>handleWorkerError\<close> decides: it gives up and shows the notice, it
  skips the restart because the last one is too recent, or it schedules
  \<^verbatim>\<open>initialize()\<close> after the given delay.\<close>

datatype restart_decision = Disabled | TooSoon | RestartIn int

text \<open>\<^verbatim>\<open>handleWorkerError\<close> at time \<open>now\<close>: the new state, the ids of the rejected
  requests and the decision.\<close>

definition handleWorkerError ::
  "int \<Rightarrow> AIWorkerService \<Rightarrow> AIWorkerService \<times> string list \<times> restart_decision" where
  "handleWorkerError now s =
     (let rejected = pendingRequests s;
          s1 = s\<lparr>pendingRequests := [], isReady := False\<rparr>;
          timeSinceLastRestart = now - lastRestartTime s1;
          s2 = (if timeSinceLastRestart > 60000 then s1\<lparr>restartAttempts := 0\<rparr> else s1)
      in if restartAttempts s2 \<ge> MAX_RESTART_ATTEMPTS then (s2, rejected, Disabled)
         else if timeSinceLastRestart < MIN_RESTART_INTERVAL then (s2, rejected, TooSoon)
         else
           (let backoffDelay = min (2000 * 2 ^ restartAttempts s2) (10000 :: int)
            in (s2\<lparr>restartAttempts := restartAttempts s2 + 1, lastRestartTime := now\<rparr>,
                rejected, RestartIn backoffDelay)))"

text \<open>What the host does when \<^verbatim>\<open>initialize()\<close> spawns a unit: the import or the
  constructor throws, the transfer of the model files throws, the unit reports
  \<^verbatim>\<open>transformers-loaded\<close>, or it never does (then \<^verbatim>\<open>waitForReady\<close> polls for
  ever).\<close>

datatype spawn_env = ImportFails | LoadFilesFail | ModelLoads | ModelNeverLoads

text \<open>\<^verbatim>\<open>initialize()\<close>: the returned boolean (\<open>None\<close> when the call never
  returns, its effects up to the endless poll being done) and the new state.\<close>

definition initialize :: "spawn_env \<Rightarrow> AIWorkerService \<Rightarrow> bool option \<times> AIWorkerService" where
  "initialize env s =
     (if worker s then (Some (isReady s), s)
      else case env of
             ImportFails \<Rightarrow> (Some False, s)
           | LoadFilesFail \<Rightarrow> (Some False, s\<lparr>worker := True\<rparr>)
           | ModelLoads \<Rightarrow> (Some True, s\<lparr>worker := True, isReady := True\<rparr>)
           | ModelNeverLoads \<Rightarrow> (None, s\<lparr>worker := True\<rparr>))"

text \<open>The body of the timer that \<^verbatim>\<open>handleWorkerError\<close> schedules: the counter is
  reset once \<^verbatim>\<open>initialize()\<close> has returned and the client is ready.\<close>

definition restartTimer :: "spawn_env \<Rightarrow> AIWorkerService \<Rightarrow> AIWorkerService" where
  "restartTimer env s =
     (case initialize env s of
        (None, s') \<Rightarrow> s'
      | (Some r, s') \<Rightarrow> (if isReady s' then s'\<lparr>restartAttempts := 0\<rparr> else s'))"

definition forceReset :: "spawn_env \<Rightarrow> AIWorkerService \<Rightarrow> bool option \<times> AIWorkerService" where
  "forceReset env s =
     initialize env
       (s\<lparr>worker := False, isReady := False, restartAttempts := 0,
          lastRestartTime := 0, pendingRequests := []\<rparr>)"

definition isWorkerReady :: "AIWorkerService \<Rightarrow> bool" where
  "isWorkerReady s = (isReady s \<and> worker s)"

text \<open>A run of the client's events, crashes at given times and firings of restart
  timers: the final state and the decision taken at each crash.\<close>

datatype client_event = Crash int | RestartTimerFires spawn_env

fun run_events ::
  "client_event list \<Rightarrow> AIWorkerService \<Rightarrow> AIWorkerService \<times> restart_decision list" where
  "run_events [] s = (s, [])"
| "run_events (Crash t # evs) s =
     (case handleWorkerError t s of
        (s', rejected, d) \<Rightarrow> (case run_events evs s' of (s'', ds) \<Rightarrow> (s'', d # ds)))"
| "run_events (RestartTimerFires env # evs) s = run_events evs (restartTimer env s)"

fun is_crash :: "client_event \<Rightarrow> bool" where
  "is_crash (Crash t) = True"
| "is_crash (RestartTimerFires env) = False"

text \<open>The embedding request. The unit's answer is a parameter: \<open>None\<close> stands for
  a rejected or timed-out request.\<close>

datatype TextType = Query | Passage

type_synonym inference = "string \<Rightarrow> TextType \<Rightarrow> real list option"

datatype request_error = WorkerNotReady | RequestFailed

definition worker_generateEmbedding ::
  "inference \<Rightarrow> AIWorkerService \<Rightarrow> string \<Rightarrow> TextType \<Rightarrow> request_error + real list" where
  "worker_generateEmbedding reply s text textType =
     (if \<not> worker s \<or> \<not> isReady s then Inl WorkerNotReady
      else case reply text textType of
             None \<Rightarrow> Inl RequestFailed
           | Some embedding \<Rightarrow> Inr embedding)"

section \<open>Inference service (AIService)\<close>

datatype AIState = NotConfigured | Ready | Error

record AIService =
  status :: AIState
  message :: string
  aiWorkerService :: AIWorkerService

text \<open>\<^verbatim>\<open>isReady()\<close> computes both readiness values for its log lines and returns the
  comparison of the status alone.\<close>

definition AIService_isReady :: "AIService \<Rightarrow> bool" where
  "AIService_isReady svc =
     (let workerReady = isWorkerReady (aiWorkerService svc);
          statusReady = (status svc = Ready)
      in status svc = Ready)"

text \<open>The readiness the specification describes, for comparison.\<close>

definition isReady_spec :: "AIService \<Rightarrow> bool" where
  "isReady_spec svc = (status svc = Ready \<and> isWorkerReady (aiWorkerService svc))"

definition AIService_generateEmbedding ::
  "inference \<Rightarrow> AIService \<Rightarrow> string \<Rightarrow> TextType \<Rightarrow> real list option" where
  "AIService_generateEmbedding reply svc text textType =
     (if \<not> AIService_isReady svc then None
      else case worker_generateEmbedding reply (aiWorkerService svc) text textType of
             Inl err \<Rightarrow> None
           | Inr embedding \<Rightarrow> Some embedding)"

section \<open>Embedding store (AIEmbeddingDatabase)\<close>

text \<open>
  Numbers that hold vector components and scores are modelled as real numbers,
  timestamps and counters as integers. A collection
  (\<^verbatim>\<open>Record<string, ...>\<close>) is an association list in the object's enumeration
  order: a new key is appended, an existing key keeps its place. (Paths are file paths,
  never canonical array indices, which JavaScript would enumerate first.)
\<close>

type_synonym vector = "real list"

record TFile =
  path :: string
  basename :: string
  mtime :: int

record TitleEmbedding =
  path :: string
  embedding :: vector
  lastModified :: int
  title :: string

record HeadingEmbedding =
  path :: string
  embedding :: vector
  lastModified :: int
  headings :: "string list"

record ContentEmbedding =
  path :: string
  embedding :: vector
  lastModified :: int
  excerpt :: string

text \<open>\<open>lastHeartbeat\<close> is \<open>None\<close> when the field is \<^verbatim>\<open>undefined\<close>, which happens
  only in an envelope read from disk that was written without it.\<close>

record IndexingState =
  isIndexing :: bool
  progress :: int
  total :: int
  lastIndexed :: int
  lastHeartbeat :: "int option"

text \<open>\<^verbatim>\<open>Partial<IndexingState>\<close>: the fields an update supplies.\<close>

record IndexingStatePatch =
  isIndexing :: "bool option"
  progress :: "int option"
  total :: "int option"
  lastIndexed :: "int option"
  lastHeartbeat :: "int option"

datatype IndexType = Titles | Headings | Content

record IndexingStates =
  titles :: IndexingState
  headings :: IndexingState
  content :: IndexingState

record EmbeddingDatabases =
  version :: string
  lastUpdate :: int
  titles :: "(string \<times> TitleEmbedding) list"
  headings :: "(string \<times> HeadingEmbedding) list"
  content :: "(string \<times> ContentEmbedding) list"
  indexingStates :: IndexingStates

text \<open>The file \<^verbatim>\<open>embeddings.json\<close>: absent, unreadable (the read or
  \<^verbatim>\<open>JSON.parse\<close> throws), or holding a parsed envelope.\<close>

datatype disk_file = Missing | Unreadable | Stored EmbeddingDatabases

definition noPatch :: IndexingStatePatch where
  "noPatch = \<lparr>IndexingStatePatch.isIndexing = None, progress = None, total = None,
              lastIndexed = None, lastHeartbeat = None\<rparr>"

definition createEmptyState :: IndexingState where
  "createEmptyState = \<lparr>IndexingState.isIndexing = False, progress = 0, total = 0,
                        lastIndexed = 0, lastHeartbeat = Some 0\<rparr>"

definition createEmptyDatabase :: "int \<Rightarrow> EmbeddingDatabases" where
  "createEmptyDatabase now =
     \<lparr>version = ''2.0.0'', lastUpdate = now, titles = [], headings = [], content = [],
      indexingStates = \<lparr>IndexingStates.titles = createEmptyState,
                        headings = createEmptyState, content = createEmptyState\<rparr>\<rparr>"

definition getIndexingState :: "IndexType \<Rightarrow> EmbeddingDatabases \<Rightarrow> IndexingState" where
  "getIndexingState type d =
     (case type of
        Titles \<Rightarrow> IndexingStates.titles (indexingStates d)
      | Headings \<Rightarrow> IndexingStates.headings (indexingStates d)
      | Content \<Rightarrow> IndexingStates.content (indexingStates d))"

text \<open>\<^verbatim>\<open>Object.assign(state, patch)\<close>.\<close>

definition assign :: "IndexingState \<Rightarrow> IndexingStatePatch \<Rightarrow> IndexingState" where
  "assign st p =
     \<lparr>IndexingState.isIndexing =
        (case IndexingStatePatch.isIndexing p of None \<Rightarrow> IndexingState.isIndexing st | Some v \<Rightarrow> v),
      progress =
        (case IndexingStatePatch.progress p of None \<Rightarrow> IndexingState.progress st | Some v \<Rightarrow> v),
      total =
        (case IndexingStatePatch.total p of None \<Rightarrow> IndexingState.total st | Some v \<Rightarrow> v),
      lastIndexed =
        (case IndexingStatePatch.lastIndexed p of None \<Rightarrow> IndexingState.lastIndexed st | Some v \<Rightarrow> v),
      lastHeartbeat =
        (case IndexingStatePatch.lastHeartbeat p of
           None \<Rightarrow> IndexingState.lastHeartbeat st | Some v \<Rightarrow> Some v)\<rparr>"

definition setIndexingState ::
  "IndexType \<Rightarrow> IndexingStatePatch \<Rightarrow> EmbeddingDatabases \<Rightarrow> EmbeddingDatabases" where
  "setIndexingState type p d =
     (let sts = indexingStates d
      in case type of
           Titles \<Rightarrow>
             d\<lparr>indexingStates := sts\<lparr>IndexingStates.titles := assign (IndexingStates.titles sts) p\<rparr>\<rparr>
         | Headings \<Rightarrow>
             d\<lparr>indexingStates := sts\<lparr>IndexingStates.headings := assign (IndexingStates.headings sts) p\<rparr>\<rparr>
         | Content \<Rightarrow>
             d\<lparr>indexingStates := sts\<lparr>IndexingStates.content := assign (IndexingStates.content sts) p\<rparr>\<rparr>)"

definition setTitleEmbedding :: "string \<Rightarrow> TitleEmbedding \<Rightarrow> EmbeddingDatabases \<Rightarrow> EmbeddingDatabases" where
  "setTitleEmbedding p e d = d\<lparr>EmbeddingDatabases.titles := AList.update p e (EmbeddingDatabases.titles d)\<rparr>"

definition getTitleEmbedding :: "string \<Rightarrow> EmbeddingDatabases \<Rightarrow> TitleEmbedding option" where
  "getTitleEmbedding p d = map_of (EmbeddingDatabases.titles d) p"

definition removeTitleEmbedding :: "string \<Rightarrow> EmbeddingDatabases \<Rightarrow> EmbeddingDatabases" where
  "removeTitleEmbedding p d = d\<lparr>EmbeddingDatabases.titles := AList.delete p (EmbeddingDatabases.titles d)\<rparr>"

definition setHeadingEmbedding :: "string \<Rightarrow> HeadingEmbedding \<Rightarrow> EmbeddingDatabases \<Rightarrow> EmbeddingDatabases" where
  "setHeadingEmbedding p e d = d\<lparr>EmbeddingDatabases.headings := AList.update p e (EmbeddingDatabases.headings d)\<rparr>"

definition getHeadingEmbedding :: "string \<Rightarrow> EmbeddingDatabases \<Rightarrow> HeadingEmbedding option" where
  "getHeadingEmbedding p d = map_of (EmbeddingDatabases.headings d) p"

definition removeHeadingEmbedding :: "string \<Rightarrow> EmbeddingDatabases \<Rightarrow> EmbeddingDatabases" where
  "removeHeadingEmbedding p d = d\<lparr>EmbeddingDatabases.headings := AList.delete p (EmbeddingDatabases.headings d)\<rparr>"

definition setContentEmbedding :: "string \<Rightarrow> ContentEmbedding \<Rightarrow> EmbeddingDatabases \<Rightarrow> EmbeddingDatabases" where
  "setContentEmbedding p e d = d\<lparr>EmbeddingDatabases.content := AList.update p e (EmbeddingDatabases.content d)\<rparr>"

definition getContentEmbedding :: "string \<Rightarrow> EmbeddingDatabases \<Rightarrow> ContentEmbedding option" where
  "getContentEmbedding p d = map_of (EmbeddingDatabases.content d) p"

definition removeContentEmbedding :: "string \<Rightarrow> EmbeddingDatabases \<Rightarrow> EmbeddingDatabases" where
  "removeContentEmbedding p d = d\<lparr>EmbeddingDatabases.content := AList.delete p (EmbeddingDatabases.content d)\<rparr>"

subsection \<open>The store with its file, the clock and the observable effects\<close>

text \<open>
  Everything an operation does besides changing the envelope is appended to a trace:
  requests to the inference service, timers and delays, writes of the file (with the
  envelope written), events triggered on the workspace, and calls of the caller's
  progress callback.
\<close>

datatype effect =
    EmbedRequest string TextType
  | Delay int
  | TimerSet int
  | Written EmbeddingDatabases
  | IndexingUpdate IndexType bool int int
  | SettingsChanged
  | Progress int int

record world =
  db :: EmbeddingDatabases
  disk :: disk_file
  writable :: bool
  clock :: int
  cancelIndexing :: bool
  trace :: "effect list"

definition emit :: "effect \<Rightarrow> world \<Rightarrow> world" where
  "emit e w = w\<lparr>trace := trace w @ [e]\<rparr>"

text \<open>\<^verbatim>\<open>save()\<close>: the update time is set, then the file is written; a failing write
  is caught and logged.\<close>

definition save :: "world \<Rightarrow> world" where
  "save w =
     (let d = (db w)\<lparr>lastUpdate := clock w\<rparr>;
          w' = emit (Written d) (w\<lparr>db := d\<rparr>)
      in if writable w then w'\<lparr>disk := Stored d\<rparr> else w')"

definition reset :: "world \<Rightarrow> world" where
  "reset w = save (w\<lparr>db := createEmptyDatabase (clock w)\<rparr>)"

text \<open>One round of the loop in \<^verbatim>\<open>load()\<close>: a missing heartbeat becomes 0, and a
  lock whose heartbeat is positive and older than 30 seconds is released.\<close>

definition recoverStaleLock :: "int \<Rightarrow> IndexingState \<Rightarrow> IndexingState" where
  "recoverStaleLock now st0 =
     (let hb = (case IndexingState.lastHeartbeat st0 of None \<Rightarrow> 0 | Some h \<Rightarrow> h);
          state = st0\<lparr>IndexingState.lastHeartbeat := Some hb\<rparr>
      in if IndexingState.isIndexing state then
           (let isStale = (hb > 0 \<and> now - hb > 30000)
            in if isStale then state\<lparr>IndexingState.isIndexing := False\<rparr> else state)
         else state)"

definition load :: "world \<Rightarrow> world" where
  "load w =
     (case disk w of
        Missing \<Rightarrow> reset w
      | Unreadable \<Rightarrow> w
      | Stored loaded \<Rightarrow>
          if version loaded = ''2.0.0'' then
            (let sts = indexingStates loaded
             in w\<lparr>db := loaded\<lparr>indexingStates :=
                    \<lparr>IndexingStates.titles = recoverStaleLock (clock w) (IndexingStates.titles sts),
                     headings = recoverStaleLock (clock w) (IndexingStates.headings sts),
                     content = recoverStaleLock (clock w) (IndexingStates.content sts)\<rparr>\<rparr>\<rparr>)
          else reset w)"

text \<open>The store right after its constructor, at time \<open>now\<close>, beside a given file; and
  an envelope whose title collection is marked as being indexed, with a given version
  and heartbeat.\<close>

definition startupWorld :: "disk_file \<Rightarrow> int \<Rightarrow> world" where
  "startupWorld f now =
     \<lparr>db = createEmptyDatabase now, disk = f, writable = True, clock = now,
      cancelIndexing = False, trace = []\<rparr>"

definition lockedEnvelope :: "string \<Rightarrow> int option \<Rightarrow> EmbeddingDatabases" where
  "lockedEnvelope v hb =
     \<lparr>version = v, lastUpdate = 0, titles = [], headings = [], content = [],
      indexingStates =
        \<lparr>IndexingStates.titles =
           \<lparr>IndexingState.isIndexing = True, progress = 4, total = 9, lastIndexed = 0,
            lastHeartbeat = hb\<rparr>,
         headings = createEmptyState, content = createEmptyState\<rparr>\<rparr>"

section \<open>Semantic search (AISemanticSearch)\<close>

datatype Source = TitleSource | HeadingSource | ContentSource

record SearchResult =
  path :: string
  score :: real
  title :: string
  excerpt :: string
  source :: Source

record SearchOptions =
  topK :: "int option"
  excludePath :: "string option"
  minScore :: "real option"

record Settings =
  aiIndexTitles :: bool
  aiIndexHeadings :: bool
  aiIndexContent :: bool

datatype search_error = LengthMismatch

text \<open>
  The numbers of the program are IEEE 754 doubles, and every operation on them rounds
  its result. The four operations that \<^verbatim>\<open>cosineSimilarity\<close> uses are taken from the
  runtime as an \<open>arithmetic\<close>; a finite double is the real number it denotes, and scores
  are compared as such.
\<close>

record arithmetic =
  fadd :: "real \<Rightarrow> real \<Rightarrow> real"
  fmul :: "real \<Rightarrow> real \<Rightarrow> real"
  fdiv :: "real \<Rightarrow> real \<Rightarrow> real"
  fsqrt :: "real \<Rightarrow> real"






text \<open>The arithmetic of the real numbers, without rounding, for comparison.\<close>

definition exactReal :: arithmetic where
  "exactReal = \<lparr>fadd = (+), fmul = (*), fdiv = (/), fsqrt = sqrt\<rparr>"

text \<open>The loop of \<^verbatim>\<open>cosineSimilarity\<close> with its three accumulators.\<close>

fun cosineLoop ::
  "arithmetic \<Rightarrow> vector \<Rightarrow> vector \<Rightarrow> real \<times> real \<times> real \<Rightarrow> real \<times> real \<times> real" where
  "cosineLoop fp (x # xs) (y # ys) (dotProduct, normA, normB) =
     cosineLoop fp xs ys
       (fadd fp dotProduct (fmul fp x y), fadd fp normA (fmul fp x x), fadd fp normB (fmul fp y y))"
| "cosineLoop fp xs ys acc = acc"

definition cosineSimilarity :: "arithmetic \<Rightarrow> vector \<Rightarrow> vector \<Rightarrow> search_error + real" where
  "cosineSimilarity fp a b =
     (if length a \<noteq> length b then Inl LengthMismatch
      else case cosineLoop fp a b (0, 0, 0) of
             (dotProduct, normA, normB) \<Rightarrow>
               (let denominator = fmul fp (fsqrt fp normA) (fsqrt fp normB)
                in Inr (if denominator = 0 then 0 else fdiv fp dotProduct denominator)))"






text \<open>\<^verbatim>\<open>String.prototype.replace\<close> with a string pattern and the empty replacement:
  the first occurrence is removed.\<close>

fun removeFirst :: "string \<Rightarrow> string \<Rightarrow> string" where
  "removeFirst pat [] = []"
| "removeFirst pat (c # cs) =
     (if take (length pat) (c # cs) = pat then drop (length pat) (c # cs)
      else c # removeFirst pat cs)"

definition getFileTitle :: "string \<Rightarrow> string" where
  "getFileTitle p =
     (let lastSegment = rev (takeWhile (\<lambda>c. c \<noteq> CHR ''/'') (rev p));
          t = removeFirst ''.md'' lastSegment
      in if t = [] then p else t)"

fun join :: "string \<Rightarrow> string list \<Rightarrow> string" where
  "join sep [] = []"
| "join sep [x] = x"
| "join sep (x # y # ys) = x @ sep @ join sep (y # ys)"

text \<open>The separator of the heading excerpt: a bullet (U+2022, here its three UTF-8
  bytes) between two spaces.\<close>

definition bulletSeparator :: string where
  "bulletSeparator = [CHR '' '', CHR 0xE2, CHR 0x80, CHR 0xA2, CHR '' '']"

definition titleResult :: "string \<Rightarrow> TitleEmbedding \<Rightarrow> real \<Rightarrow> SearchResult" where
  "titleResult p data sc =
     \<lparr>SearchResult.path = p, score = sc, title = TitleEmbedding.title data,
      excerpt = TitleEmbedding.title data, source = TitleSource\<rparr>"

definition headingResult :: "string \<Rightarrow> HeadingEmbedding \<Rightarrow> real \<Rightarrow> SearchResult" where
  "headingResult p data sc =
     \<lparr>SearchResult.path = p, score = sc, title = getFileTitle p,
      excerpt = join bulletSeparator (HeadingEmbedding.headings data), source = HeadingSource\<rparr>"

definition contentResult :: "string \<Rightarrow> ContentEmbedding \<Rightarrow> real \<Rightarrow> SearchResult" where
  "contentResult p data sc =
     \<lparr>SearchResult.path = p, score = sc, title = getFileTitle p,
      excerpt = ContentEmbedding.excerpt data, source = ContentSource\<rparr>"

text \<open>\<^verbatim>\<open>excludePath && path === excludePath\<close>: an empty exclusion excludes nothing.\<close>

definition excluded :: "string option \<Rightarrow> string \<Rightarrow> bool" where
  "excluded ex p = (case ex of None \<Rightarrow> False | Some e \<Rightarrow> e \<noteq> [] \<and> p = e)"

text \<open>One of the three loops over the entries of a collection: every entry that is
  not excluded is scored and pushed; a length mismatch aborts the search.\<close>

fun scoreEntries ::
  "arithmetic \<Rightarrow> vector \<Rightarrow> string option \<Rightarrow> ('e \<Rightarrow> vector) \<Rightarrow> (string \<Rightarrow> 'e \<Rightarrow> real \<Rightarrow> SearchResult) \<Rightarrow>
   (string \<times> 'e) list \<Rightarrow> SearchResult list \<Rightarrow> search_error + SearchResult list" where
  "scoreEntries fp q ex emb mk [] allResults = Inr allResults"
| "scoreEntries fp q ex emb mk ((p, data) # rest) allResults =
     (if excluded ex p then scoreEntries fp q ex emb mk rest allResults
      else case cosineSimilarity fp q (emb data) of
             Inl err \<Rightarrow> Inl err
           | Inr sc \<Rightarrow> scoreEntries fp q ex emb mk rest (allResults @ [mk p data sc]))"

text \<open>One round of the merge loop on the insertion-ordered map \<^verbatim>\<open>bestByPath\<close>.\<close>

definition mergeBest :: "(string \<times> SearchResult) list \<Rightarrow> SearchResult \<Rightarrow> (string \<times> SearchResult) list" where
  "mergeBest bestByPath result =
     (case map_of bestByPath (SearchResult.path result) of
        None \<Rightarrow> AList.update (SearchResult.path result) result bestByPath
      | Some existing \<Rightarrow>
          if score result > score existing
          then AList.update (SearchResult.path result) result bestByPath
          else bestByPath)"

text \<open>\<^verbatim>\<open>slice(0, k)\<close>: a negative \<open>k\<close> counts from the end.\<close>

definition slice0 :: "'a list \<Rightarrow> int \<Rightarrow> 'a list" where
  "slice0 xs k = (if k \<ge> 0 then take (nat k) xs else take (nat (int (length xs) + k)) xs)"

definition findSimilar ::
  "arithmetic \<Rightarrow> Settings \<Rightarrow> EmbeddingDatabases \<Rightarrow> vector \<Rightarrow> int \<Rightarrow> string option \<Rightarrow> real option \<Rightarrow>
   search_error + SearchResult list" where
  "findSimilar fp st d queryEmbedding k ex minSc =
     (case (if aiIndexTitles st
            then scoreEntries fp queryEmbedding ex TitleEmbedding.embedding titleResult
                   (EmbeddingDatabases.titles d) []
            else Inr []) of
        Inl err \<Rightarrow> Inl err
      | Inr r1 \<Rightarrow>
     (case (if aiIndexHeadings st
            then scoreEntries fp queryEmbedding ex HeadingEmbedding.embedding headingResult
                   (EmbeddingDatabases.headings d) r1
            else Inr r1) of
        Inl err \<Rightarrow> Inl err
      | Inr r2 \<Rightarrow>
     (case (if aiIndexContent st
            then scoreEntries fp queryEmbedding ex ContentEmbedding.embedding contentResult
                   (EmbeddingDatabases.content d) r2
            else Inr r2) of
        Inl err \<Rightarrow> Inl err
      | Inr allResults \<Rightarrow>
          (let bestByPath = foldl mergeBest [] allResults;
               merged = sort_key (\<lambda>r. - score r) (map snd bestByPath);
               filtered = (case minSc of
                             None \<Rightarrow> merged
                           | Some m \<Rightarrow> if m > 0 then filter (\<lambda>r. score r \<ge> m) merged else merged)
           in Inr (slice0 filtered k)))))"

definition searchByEmbedding ::
  "arithmetic \<Rightarrow> Settings \<Rightarrow> EmbeddingDatabases \<Rightarrow> vector \<Rightarrow> SearchOptions \<Rightarrow> search_error + SearchResult list" where
  "searchByEmbedding fp st d queryEmbedding options =
     findSimilar fp st d queryEmbedding
       (case topK options of None \<Rightarrow> 5 | Some k \<Rightarrow> k)
       (excludePath options)
       (Some (case minScore options of None \<Rightarrow> 0 | Some m \<Rightarrow> m))"

text \<open>The matches of a path as the specification describes them: one per enabled
  collection that stores the path, with its cosine score and its source.\<close>

definition collectionMatch ::
  "arithmetic \<Rightarrow> bool \<Rightarrow> ('e \<Rightarrow> vector) \<Rightarrow> Source \<Rightarrow> (string \<times> 'e) list \<Rightarrow> vector \<Rightarrow> string \<Rightarrow>
   (real \<times> Source) list" where
  "collectionMatch fp enabled emb src collection q p =
     (if enabled then
        (case map_of collection p of
           None \<Rightarrow> []
         | Some e \<Rightarrow>
             (case cosineSimilarity fp q (emb e) of
                Inl err \<Rightarrow> []
              | Inr sc \<Rightarrow> [(sc, src)]))
      else [])"

definition pathMatches ::
  "arithmetic \<Rightarrow> Settings \<Rightarrow> EmbeddingDatabases \<Rightarrow> vector \<Rightarrow> string \<Rightarrow> (real \<times> Source) list" where
  "pathMatches fp st d q p =
     collectionMatch fp (aiIndexTitles st) TitleEmbedding.embedding TitleSource
       (EmbeddingDatabases.titles d) q p
     @ collectionMatch fp (aiIndexHeadings st) HeadingEmbedding.embedding HeadingSource
         (EmbeddingDatabases.headings d) q p
     @ collectionMatch fp (aiIndexContent st) ContentEmbedding.embedding ContentSource
         (EmbeddingDatabases.content d) q p"

text \<open>Everything the three loops of \<^verbatim>\<open>findSimilar\<close> push when no comparison
  throws.\<close>

definition candidates ::
  "arithmetic \<Rightarrow> Settings \<Rightarrow> EmbeddingDatabases \<Rightarrow> vector \<Rightarrow> string option \<Rightarrow> SearchResult set" where
  "candidates fp st d q ex =
       {titleResult p data sc | p data sc. aiIndexTitles st \<and> (p, data) \<in> set (EmbeddingDatabases.titles d)
           \<and> \<not> excluded ex p \<and> cosineSimilarity fp q (TitleEmbedding.embedding data) = Inr sc}
     \<union> {headingResult p data sc | p data sc. aiIndexHeadings st \<and> (p, data) \<in> set (EmbeddingDatabases.headings d)
           \<and> \<not> excluded ex p \<and> cosineSimilarity fp q (HeadingEmbedding.embedding data) = Inr sc}
     \<union> {contentResult p data sc | p data sc. aiIndexContent st \<and> (p, data) \<in> set (EmbeddingDatabases.content d)
           \<and> \<not> excluded ex p \<and> cosineSimilarity fp q (ContentEmbedding.embedding data) = Inr sc}"

text \<open>A small store for examples: one document indexed in all three collections,
  another by title only.\<close>

definition allEnabled :: Settings where
  "allEnabled = \<lparr>aiIndexTitles = True, aiIndexHeadings = True, aiIndexContent = True\<rparr>"

definition searchDb :: EmbeddingDatabases where
  "searchDb =
     (createEmptyDatabase 0)
       \<lparr>EmbeddingDatabases.titles :=
          [(''notes/a.md'', \<lparr>TitleEmbedding.path = ''notes/a.md'', embedding = [0, 1],
                            lastModified = 10, title = ''a''\<rparr>),
           (''b.md'', \<lparr>TitleEmbedding.path = ''b.md'', embedding = [3, 4],
                      lastModified = 20, title = ''b''\<rparr>)],
        EmbeddingDatabases.headings :=
          [(''notes/a.md'', \<lparr>HeadingEmbedding.path = ''notes/a.md'', embedding = [0, 2],
                            lastModified = 10, headings = [''Intro'', ''Outlook'']\<rparr>)],
        EmbeddingDatabases.content :=
          [(''notes/a.md'', \<lparr>ContentEmbedding.path = ''notes/a.md'', embedding = [1, 0],
                            lastModified = 10, excerpt = ''alpha''\<rparr>)]\<rparr>"

definition noOptions :: SearchOptions where
  "noOptions = \<lparr>topK = None, excludePath = None, minScore = None\<rparr>"

section \<open>Indexing engine (AIIndexingEngine)\<close>

text \<open>
  What the engine reads from its surroundings and does not change: the settings, the
  vault (the list of documents, their text, their headings from the metadata cache),
  the inference service with the answers of its unit, and the asynchronous events
  that arrive while a pass waits between two chunks.
\<close>

datatype async_event = CancelRequested | CleanupTimerFires

record host =
  settings :: Settings
  markdownFiles :: "TFile list"
  cachedRead :: "string \<Rightarrow> string option"
  fileHeadings :: "string \<Rightarrow> string list option"
  aiService :: AIService
  reply :: inference
  interrupts :: "nat \<Rightarrow> async_event list"

record IndexingParams =
  chunkSize :: nat
  delayMs :: int
  saveEvery :: int

definition INDEXING_PARAMS :: "IndexType \<Rightarrow> IndexingParams" where
  "INDEXING_PARAMS type =
     (case type of
        Titles \<Rightarrow> \<lparr>chunkSize = 25, delayMs = 5, saveEvery = 25\<rparr>
      | Headings \<Rightarrow> \<lparr>chunkSize = 5, delayMs = 10, saveEvery = 15\<rparr>
      | Content \<Rightarrow> \<lparr>chunkSize = 2, delayMs = 50, saveEvery = 5\<rparr>)"

definition generatePassageEmbedding :: "host \<Rightarrow> string \<Rightarrow> world \<Rightarrow> vector option \<times> world" where
  "generatePassageEmbedding h text w =
     (AIService_generateEmbedding (reply h) (aiService h) text Passage,
      emit (EmbedRequest text Passage) w)"

definition indexTitle :: "host \<Rightarrow> TFile \<Rightarrow> world \<Rightarrow> world" where
  "indexTitle h file w =
     (let existing = getTitleEmbedding (TFile.path file) (db w);
          fresh = (case existing of
                     None \<Rightarrow> False
                   | Some e \<Rightarrow> TitleEmbedding.lastModified e = mtime file)
      in if fresh then w
         else
           (case generatePassageEmbedding h (basename file) w of
              (None, w') \<Rightarrow> w'
            | (Some emb, w') \<Rightarrow>
                w'\<lparr>db := setTitleEmbedding (TFile.path file)
                           \<lparr>TitleEmbedding.path = TFile.path file, embedding = emb,
                            lastModified = mtime file, title = basename file\<rparr> (db w')\<rparr>))"

definition newline :: string where
  "newline = [CHR 0x0A]"

definition indexHeadings :: "host \<Rightarrow> TFile \<Rightarrow> world \<Rightarrow> world" where
  "indexHeadings h file w =
     (let existing = getHeadingEmbedding (TFile.path file) (db w);
          fresh = (case existing of
                     None \<Rightarrow> False
                   | Some e \<Rightarrow> HeadingEmbedding.lastModified e = mtime file)
      in if fresh then w
         else
           (let hs = (case fileHeadings h (TFile.path file) of None \<Rightarrow> [] | Some l \<Rightarrow> l)
            in if hs = [] then
                 (case getHeadingEmbedding (TFile.path file) (db w) of
                    None \<Rightarrow> w
                  | Some current \<Rightarrow> w\<lparr>db := removeHeadingEmbedding (TFile.path file) (db w)\<rparr>)
               else
                 (case generatePassageEmbedding h (join newline hs) w of
                    (None, w') \<Rightarrow> w'
                  | (Some emb, w') \<Rightarrow>
                      w'\<lparr>db := setHeadingEmbedding (TFile.path file)
                                 \<lparr>HeadingEmbedding.path = TFile.path file, embedding = emb,
                                  lastModified = mtime file, headings = hs\<rparr> (db w')\<rparr>)))"

text \<open>A read of the document that throws is caught by the routine's own handler.\<close>

definition indexContent :: "host \<Rightarrow> TFile \<Rightarrow> world \<Rightarrow> world" where
  "indexContent h file w =
     (let existing = getContentEmbedding (TFile.path file) (db w);
          fresh = (case existing of
                     None \<Rightarrow> False
                   | Some e \<Rightarrow> ContentEmbedding.lastModified e = mtime file)
      in if fresh then w
         else
           (case cachedRead h (TFile.path file) of
              None \<Rightarrow> w
            | Some text \<Rightarrow>
                (let maxLength = 3000;
                     content = (if length text > maxLength then take maxLength text else text)
                 in case generatePassageEmbedding h content w of
                      (None, w') \<Rightarrow> w'
                    | (Some emb, w') \<Rightarrow>
                        w'\<lparr>db := setContentEmbedding (TFile.path file)
                                   \<lparr>ContentEmbedding.path = TFile.path file, embedding = emb,
                                    lastModified = mtime file,
                                    excerpt = map (\<lambda>c. if c = CHR 0x0A then CHR '' '' else c)
                                                (take 150 content)\<rparr> (db w')\<rparr>)))"

definition indexNote :: "host \<Rightarrow> TFile \<Rightarrow> bool \<Rightarrow> world \<Rightarrow> world" where
  "indexNote h file saveIt w =
     (let w1 = (if aiIndexTitles (settings h) then indexTitle h file w else w);
          w2 = (if aiIndexHeadings (settings h) then indexHeadings h file w1 else w1);
          w3 = (if aiIndexContent (settings h) then indexContent h file w2 else w2)
      in if saveIt then save w3 else w3)"

definition isAnyIndexing :: "EmbeddingDatabases \<Rightarrow> bool" where
  "isAnyIndexing d =
     (IndexingState.isIndexing (getIndexingState Titles d)
      \<or> IndexingState.isIndexing (getIndexingState Headings d)
      \<or> IndexingState.isIndexing (getIndexingState Content d))"

definition setAllIndexingFalse :: "EmbeddingDatabases \<Rightarrow> EmbeddingDatabases" where
  "setAllIndexingFalse d =
     setIndexingState Content (noPatch\<lparr>IndexingStatePatch.isIndexing := Some False\<rparr>)
       (setIndexingState Headings (noPatch\<lparr>IndexingStatePatch.isIndexing := Some False\<rparr>)
          (setIndexingState Titles (noPatch\<lparr>IndexingStatePatch.isIndexing := Some False\<rparr>) d))"

definition triggerIndexingUpdate :: "IndexType \<Rightarrow> int option \<Rightarrow> int option \<Rightarrow> world \<Rightarrow> world" where
  "triggerIndexingUpdate type prog tot w =
     (let state = getIndexingState type (db w);
          actualProgress = (case prog of None \<Rightarrow> IndexingState.progress state | Some v \<Rightarrow> v);
          actualTotal = (case tot of None \<Rightarrow> IndexingState.total state | Some v \<Rightarrow> v)
      in emit (IndexingUpdate type (IndexingState.isIndexing state) actualProgress actualTotal) w)"

text \<open>\<^verbatim>\<open>cancelBackgroundIndexing()\<close> sets the flag and a timer of 100 ms; the body of
  the timer is \<open>cancelCleanup\<close>.\<close>

definition cancelBackgroundIndexing :: "world \<Rightarrow> world" where
  "cancelBackgroundIndexing w =
     (if isAnyIndexing (db w) then emit (TimerSet 100) (w\<lparr>cancelIndexing := True\<rparr>) else w)"

definition cancelCleanup :: "world \<Rightarrow> world" where
  "cancelCleanup w = save (w\<lparr>db := setAllIndexingFalse (db w)\<rparr>)"

fun run_async :: "async_event list \<Rightarrow> world \<Rightarrow> world" where
  "run_async [] w = w"
| "run_async (CancelRequested # evs) w = run_async evs (cancelBackgroundIndexing w)"
| "run_async (CleanupTimerFires # evs) w = run_async evs (cancelCleanup w)"

text \<open>A call either returns or throws; the effects made before a throw stay.\<close>

datatype completion = Returned | Threw

type_synonym progress_callback = "int \<Rightarrow> int \<Rightarrow> world \<Rightarrow> completion \<times> world"

text \<open>The callback that \<^verbatim>\<open>indexSpecificType\<close> hands to the loop: the caller's own
  callback, if any (its result says whether it returns or throws), then the update
  event.\<close>

definition progressWrapper ::
  "IndexType \<Rightarrow> (int \<Rightarrow> int \<Rightarrow> completion) option \<Rightarrow> progress_callback" where
  "progressWrapper type onProgress current tot w =
     (case onProgress of
        None \<Rightarrow> (Returned, triggerIndexingUpdate type (Some current) (Some tot) w)
      | Some f \<Rightarrow>
          (let w' = emit (Progress current tot) w
           in case f current tot of
                Threw \<Rightarrow> (Threw, w')
              | Returned \<Rightarrow> (Returned, triggerIndexingUpdate type (Some current) (Some tot) w')))"

definition indexOne :: "IndexType \<Rightarrow> host \<Rightarrow> TFile \<Rightarrow> world \<Rightarrow> world" where
  "indexOne type h file w =
     (case type of
        Titles \<Rightarrow> indexTitle h file w
      | Headings \<Rightarrow> indexHeadings h file w
      | Content \<Rightarrow> indexContent h file w)"

text \<open>The body of the chunk loop after the cancellation poll, for the chunk that
  starts at index \<open>i\<close>: the delay (during which the asynchronous events of the host
  arrive), the documents of the chunk, the heartbeat, the callback, and the save when
  the count is a multiple of \<open>saveEvery\<close>. The result carries the new count.\<close>

definition indexChunk ::
  "IndexType \<Rightarrow> host \<Rightarrow> progress_callback option \<Rightarrow> TFile list \<Rightarrow> nat \<Rightarrow> int \<Rightarrow> world \<Rightarrow>
   completion \<times> int \<times> world" where
  "indexChunk type h onProgress files i indexed w =
     (let params = INDEXING_PARAMS type;
          w1 = run_async (interrupts h i)
                 (emit (Delay (delayMs params)) (w\<lparr>clock := clock w + delayMs params\<rparr>));
          chunk = take (chunkSize params) (drop i files);
          w2 = foldl (\<lambda>acc file. indexOne type h file acc) w1 chunk;
          indexed' = indexed + int (length chunk);
          w3 = w2\<lparr>db := setIndexingState type
                     (noPatch\<lparr>IndexingStatePatch.progress := Some indexed',
                              IndexingStatePatch.lastHeartbeat := Some (clock w2)\<rparr>) (db w2)\<rparr>
      in case (case onProgress of
                 None \<Rightarrow> (Returned, w3)
               | Some f \<Rightarrow> f indexed' (int (length files)) w3) of
           (Threw, w4) \<Rightarrow> (Threw, indexed', w4)
         | (Returned, w4) \<Rightarrow>
             (Returned, indexed',
              if indexed' mod saveEvery params = 0
              then triggerIndexingUpdate type (Some indexed') (Some (int (length files))) (save w4)
              else w4))"

function indexAllOf ::
  "IndexType \<Rightarrow> host \<Rightarrow> progress_callback option \<Rightarrow> TFile list \<Rightarrow> nat \<Rightarrow> int \<Rightarrow> world \<Rightarrow>
   completion \<times> world" where
  "indexAllOf type h onProgress files i indexed w =
     (if i < length files then
        (if cancelIndexing w then (Returned, w)
         else case indexChunk type h onProgress files i indexed w of
                (Threw, indexed', w') \<Rightarrow> (Threw, w')
              | (Returned, indexed', w') \<Rightarrow>
                  indexAllOf type h onProgress files
                    (i + chunkSize (INDEXING_PARAMS type)) indexed' w')
      else (Returned, w))"
  by pat_completeness auto
termination
  by (relation "measure (\<lambda>(type, h, onProgress, files, i, indexed, w). length files - i)")
     (auto simp: INDEXING_PARAMS_def split: IndexType.splits)

declare indexAllOf.simps [simp del]

definition indexAllTitles :: "host \<Rightarrow> progress_callback option \<Rightarrow> TFile list \<Rightarrow> world \<Rightarrow> completion \<times> world" where
  "indexAllTitles h onProgress files w = indexAllOf Titles h onProgress files 0 0 w"

definition indexAllHeadings :: "host \<Rightarrow> progress_callback option \<Rightarrow> TFile list \<Rightarrow> world \<Rightarrow> completion \<times> world" where
  "indexAllHeadings h onProgress files w = indexAllOf Headings h onProgress files 0 0 w"

definition indexAllContent :: "host \<Rightarrow> progress_callback option \<Rightarrow> TFile list \<Rightarrow> world \<Rightarrow> completion \<times> world" where
  "indexAllContent h onProgress files w = indexAllOf Content h onProgress files 0 0 w"

definition indexSpecificType ::
  "IndexType \<Rightarrow> host \<Rightarrow> (int \<Rightarrow> int \<Rightarrow> completion) option \<Rightarrow> world \<Rightarrow> completion \<times> world" where
  "indexSpecificType type h onProgress w =
     (if isAnyIndexing (db w) then (Returned, w)
      else
        (let w1 = w\<lparr>cancelIndexing := False\<rparr>;
             files = markdownFiles h;
             totalFiles = int (length files);
             w2 = w1\<lparr>db := setIndexingState type
                        \<lparr>IndexingStatePatch.isIndexing = Some True, progress = Some 0,
                         total = Some totalFiles, lastIndexed = None,
                         lastHeartbeat = Some (clock w1)\<rparr> (db w1)\<rparr>;
             w3 = save w2
         in case (case type of
                    Titles \<Rightarrow> indexAllTitles h (Some (progressWrapper Titles onProgress)) files w3
                  | Headings \<Rightarrow> indexAllHeadings h (Some (progressWrapper Headings onProgress)) files w3
                  | Content \<Rightarrow> indexAllContent h (Some (progressWrapper Content onProgress)) files w3) of
              (Returned, w4) \<Rightarrow>
                (let w5 = w4\<lparr>db := setIndexingState type
                             (noPatch\<lparr>IndexingStatePatch.isIndexing := Some False,
                                      IndexingStatePatch.lastIndexed := Some (clock w4)\<rparr>) (db w4)\<rparr>;
                     w6 = save w5;
                     w7 = triggerIndexingUpdate type None None w6;
                     w8 = emit SettingsChanged w7
                 in (Returned,
                     w8\<lparr>db := setIndexingState type
                               (noPatch\<lparr>IndexingStatePatch.progress := Some 0,
                                        IndexingStatePatch.total := Some 0\<rparr>) (db w8)\<rparr>))
            | (Threw, w4) \<Rightarrow>
                (let w5 = w4\<lparr>db := setIndexingState type
                             (noPatch\<lparr>IndexingStatePatch.isIndexing := Some False,
                                      IndexingStatePatch.progress := Some 0,
                                      IndexingStatePatch.total := Some 0\<rparr>) (db w4)\<rparr>
                 in (Threw, triggerIndexingUpdate type None None w5))))"

definition removeNote :: "string \<Rightarrow> world \<Rightarrow> world" where
  "removeNote p w =
     (let (w1, r1) = (case getTitleEmbedding p (db w) of
                        None \<Rightarrow> (w, False)
                      | Some e \<Rightarrow> (w\<lparr>db := removeTitleEmbedding p (db w)\<rparr>, True));
          (w2, r2) = (case getHeadingEmbedding p (db w1) of
                        None \<Rightarrow> (w1, r1)
                      | Some e \<Rightarrow> (w1\<lparr>db := removeHeadingEmbedding p (db w1)\<rparr>, True));
          (w3, removed) = (case getContentEmbedding p (db w2) of
                        None \<Rightarrow> (w2, r2)
                      | Some e \<Rightarrow> (w2\<lparr>db := removeContentEmbedding p (db w2)\<rparr>, True))
      in if removed then save w3 else w3)"

definition updateNoteIfNeeded :: "host \<Rightarrow> TFile \<Rightarrow> world \<Rightarrow> world" where
  "updateNoteIfNeeded h file w =
     (let titleExists = getTitleEmbedding (TFile.path file) (db w);
          headingExists = getHeadingEmbedding (TFile.path file) (db w);
          contentExists = getContentEmbedding (TFile.path file) (db w);
          needsUpdate =
            ((case titleExists of None \<Rightarrow> False
              | Some e \<Rightarrow> TitleEmbedding.lastModified e \<noteq> mtime file)
             \<or> (case headingExists of None \<Rightarrow> False
              | Some e \<Rightarrow> HeadingEmbedding.lastModified e \<noteq> mtime file)
             \<or> (case contentExists of None \<Rightarrow> False
              | Some e \<Rightarrow> ContentEmbedding.lastModified e \<noteq> mtime file)
             \<or> (titleExists = None \<and> headingExists = None \<and> contentExists = None))
      in if needsUpdate then indexNote h file True w else w)"

subsection \<open>Observations on a trace, and the claims in the specification's words\<close>

fun is_embed :: "effect \<Rightarrow> bool" where
  "is_embed (EmbedRequest text textType) = True"
| "is_embed e = False"

text \<open>The envelopes handed to the file system, in order.\<close>

fun written :: "effect list \<Rightarrow> EmbeddingDatabases list" where
  "written [] = []"
| "written (Written e # es) = e # written es"
| "written (e # es) = written es"

text \<open>When the specification wants \<^verbatim>\<open>updateNoteIfNeeded\<close> to recompute: no record for
  the path in any enabled collection, or an existing record with another timestamp.\<close>

definition specNeedsUpdate :: "host \<Rightarrow> TFile \<Rightarrow> EmbeddingDatabases \<Rightarrow> bool" where
  "specNeedsUpdate h file d =
     ((\<not> (aiIndexTitles (settings h) \<and> getTitleEmbedding (TFile.path file) d \<noteq> None)
       \<and> \<not> (aiIndexHeadings (settings h) \<and> getHeadingEmbedding (TFile.path file) d \<noteq> None)
       \<and> \<not> (aiIndexContent (settings h) \<and> getContentEmbedding (TFile.path file) d \<noteq> None))
      \<or> (case getTitleEmbedding (TFile.path file) d of
            None \<Rightarrow> False | Some e \<Rightarrow> TitleEmbedding.lastModified e \<noteq> mtime file)
      \<or> (case getHeadingEmbedding (TFile.path file) d of
            None \<Rightarrow> False | Some e \<Rightarrow> HeadingEmbedding.lastModified e \<noteq> mtime file)
      \<or> (case getContentEmbedding (TFile.path file) d of
            None \<Rightarrow> False | Some e \<Rightarrow> ContentEmbedding.lastModified e \<noteq> mtime file))"

subsection \<open>Example surroundings\<close>

text \<open>A service that is ready, a unit that answers every request with the same
  vector, documents that all have the same text and one heading, and no asynchronous
  event.\<close>

definition readyService :: AIService where
  "readyService =
     \<lparr>status = Ready, message = ''AI Model loaded in Worker'',
      aiWorkerService = \<lparr>worker = True, isReady = True, pendingRequests = [],
                         restartAttempts = 0, lastRestartTime = 0\<rparr>\<rparr>"

definition quietHost :: "Settings \<Rightarrow> TFile list \<Rightarrow> host" where
  "quietHost st files =
     \<lparr>settings = st, markdownFiles = files,
      cachedRead = (\<lambda>p. Some ''body of the note''),
      fileHeadings = (\<lambda>p. Some [''Intro'']),
      aiService = readyService,
      reply = (\<lambda>text textType. Some [1, 0]),
      interrupts = (\<lambda>i. [])\<rparr>"

definition noteA :: TFile where
  "noteA = \<lparr>TFile.path = ''notes/a.md'', basename = ''a'', mtime = 10\<rparr>"

definition noteC :: TFile where
  "noteC = \<lparr>TFile.path = ''c.md'', basename = ''c'', mtime = 30\<rparr>"

subsection \<open>Notions for the statements about indexing passes\<close>

text \<open>A caller's progress callback that never throws (or no callback at all), and a
  host on which no asynchronous event arrives during a pass.\<close>

definition nonThrowing :: "(int \<Rightarrow> int \<Rightarrow> completion) option \<Rightarrow> bool" where
  "nonThrowing onProgress = (case onProgress of None \<Rightarrow> True | Some f \<Rightarrow> \<forall>a b. f a b = Returned)"

definition quiet :: "host \<Rightarrow> bool" where
  "quiet h = (\<forall>i. interrupts h i = [])"

text \<open>The world after the delay of the chunk at index \<open>i\<close> and the asynchronous
  events that arrive during it.\<close>

definition afterDelay :: "IndexType \<Rightarrow> host \<Rightarrow> nat \<Rightarrow> world \<Rightarrow> world" where
  "afterDelay type h i w =
     run_async (interrupts h i)
       (emit (Delay (delayMs (INDEXING_PARAMS type)))
          (w\<lparr>clock := clock w + delayMs (INDEXING_PARAMS type)\<rparr>))"

text \<open>The running counts of the chunk loop: for chunks of size \<open>cs\<close> over \<open>len\<close>
  documents, from index \<open>i\<close> with count \<open>n\<close>, the value of \<^verbatim>\<open>indexed\<close> after each chunk.
  The progress values of the envelopes a trace writes are compared with them.\<close>

function chunkEnds :: "nat \<Rightarrow> nat \<Rightarrow> nat \<Rightarrow> int \<Rightarrow> int list" where
  "chunkEnds cs len i n =
     (if i < len \<and> 0 < cs
      then (n + int (min cs (len - i))) # chunkEnds cs len (i + cs) (n + int (min cs (len - i)))
      else [])"
  by pat_completeness auto
termination
  by (relation "measure (\<lambda>(cs, len, i, n). len - i)") auto

declare chunkEnds.simps [simp del]

definition savedProgress :: "IndexType \<Rightarrow> effect list \<Rightarrow> int list" where
  "savedProgress type es =
     map (\<lambda>e. IndexingState.progress (getIndexingState type e)) (written es)"

text \<open>The lock invariant of the specification: at most one of the three flags is set,
  in the store, in every envelope handed to the file system, and in the file.\<close>

definition atMostOneIndexing :: "EmbeddingDatabases \<Rightarrow> bool" where
  "atMostOneIndexing d =
     (\<not> (IndexingState.isIndexing (getIndexingState Titles d)
          \<and> IndexingState.isIndexing (getIndexingState Headings d))
      \<and> \<not> (IndexingState.isIndexing (getIndexingState Titles d)
          \<and> IndexingState.isIndexing (getIndexingState Content d))
      \<and> \<not> (IndexingState.isIndexing (getIndexingState Headings d)
          \<and> IndexingState.isIndexing (getIndexingState Content d)))"

definition lockInvariant :: "world \<Rightarrow> bool" where
  "lockInvariant w =
     (atMostOneIndexing (db w)
      \<and> list_all atMostOneIndexing (written (trace w))
      \<and> (case disk w of Stored e \<Rightarrow> atMostOneIndexing e | other \<Rightarrow> True))"

text \<open>For the proof that a pass keeps the invariant: all flags that are set lie within
  \<open>F\<close>, where \<open>F\<close> holds of at most one collection.\<close>

definition heldWithin :: "(IndexType \<Rightarrow> bool) \<Rightarrow> EmbeddingDatabases \<Rightarrow> bool" where
  "heldWithin F d = (\<forall>ty. IndexingState.isIndexing (getIndexingState ty d) \<longrightarrow> F ty)"

definition single :: "(IndexType \<Rightarrow> bool) \<Rightarrow> bool" where
  "single F = (\<forall>a b. F a \<longrightarrow> F b \<longrightarrow> a = b)"

definition lockBound :: "(IndexType \<Rightarrow> bool) \<Rightarrow> world \<Rightarrow> bool" where
  "lockBound F w =
     (heldWithin F (db w)
      \<and> list_all atMostOneIndexing (written (trace w))
      \<and> (case disk w of Stored e \<Rightarrow> atMostOneIndexing e | other \<Rightarrow> True))"

text \<open>The state that \<open>indexSpecificType\<close> hands to the loop, and its two ways out.\<close>

definition passStart :: "IndexType \<Rightarrow> host \<Rightarrow> world \<Rightarrow> world" where
  "passStart type h w =
     save (w\<lparr>cancelIndexing := False,
             db := setIndexingState type
                     \<lparr>IndexingStatePatch.isIndexing = Some True, progress = Some 0,
                      total = Some (int (length (markdownFiles h))), lastIndexed = None,
                      lastHeartbeat = Some (clock w)\<rparr> (db w)\<rparr>)"

definition passComplete :: "IndexType \<Rightarrow> world \<Rightarrow> world" where
  "passComplete type w4 =
     (let w8 = emit SettingsChanged
                 (triggerIndexingUpdate type None None
                    (save (w4\<lparr>db := setIndexingState type
                                 (noPatch\<lparr>IndexingStatePatch.isIndexing := Some False,
                                          IndexingStatePatch.lastIndexed := Some (clock w4)\<rparr>)
                                 (db w4)\<rparr>)))
      in w8\<lparr>db := setIndexingState type
                     (noPatch\<lparr>IndexingStatePatch.progress := Some 0,
                              IndexingStatePatch.total := Some 0\<rparr>) (db w8)\<rparr>)"

definition passFail :: "IndexType \<Rightarrow> world \<Rightarrow> world" where
  "passFail type w4 =
     triggerIndexingUpdate type None None
       (w4\<lparr>db := setIndexingState type
                   (noPatch\<lparr>IndexingStatePatch.isIndexing := Some False,
                            IndexingStatePatch.progress := Some 0,
                            IndexingStatePatch.total := Some 0\<rparr>) (db w4)\<rparr>)"

text \<open>Ten documents and six, the setting with only content enabled, and a host like
  \<open>quietHost\<close> with a given schedule of asynchronous events: \<open>schedule i\<close> arrives
  while the chunk that starts at index \<open>i\<close> waits.\<close>

definition noteNamed :: "string \<Rightarrow> TFile" where
  "noteNamed name = \<lparr>TFile.path = name @ ''.md'', basename = name, mtime = 10\<rparr>"

definition tenNotes :: "TFile list" where
  "tenNotes = map noteNamed
     [''n0'', ''n1'', ''n2'', ''n3'', ''n4'', ''n5'', ''n6'', ''n7'', ''n8'', ''n9'']"

definition sixNotes :: "TFile list" where
  "sixNotes = map noteNamed [''n0'', ''n1'', ''n2'', ''n3'', ''n4'', ''n5'']"

definition contentOnly :: Settings where
  "contentOnly = \<lparr>aiIndexTitles = False, aiIndexHeadings = False, aiIndexContent = True\<rparr>"

definition scheduleHost :: "Settings \<Rightarrow> TFile list \<Rightarrow> (nat \<Rightarrow> async_event list) \<Rightarrow> host" where
  "scheduleHost st files schedule = (quietHost st files)\<lparr>interrupts := schedule\<rparr>"

text \<open>The collection of the equations that say what a step leaves unchanged.\<close>

named_theorems frame

section \<open>Properties of the inference service and client\<close>

text \<open>
  C1. The specification asks \<^verbatim>\<open>isReady()\<close> to be true only when the persisted status
  is \<^verbatim>\<open>ready\<close> and the client reports its unit ready. The code returns the status
  comparison alone: with status \<^verbatim>\<open>ready\<close> and a client that is not ready (a handle
  exists, its readiness flag was dropped by a crash) \<^verbatim>\<open>isReady()\<close> is true, while the
  conjunction the specification describes is false.
\<close>

theorem isReady_ignores_worker:
  "AIService_isReady
     \<lparr>status = Ready, message = ''AI Model loaded in Worker'',
      aiWorkerService = \<lparr>worker = True, isReady = False, pendingRequests = [],
                         restartAttempts = 1, lastRestartTime = 100000\<rparr>\<rparr>
   \<and> \<not> isWorkerReady \<lparr>worker = True, isReady = False, pendingRequests = [],
                       restartAttempts = 1, lastRestartTime = 100000\<rparr>
   \<and> \<not> isReady_spec
     \<lparr>status = Ready, message = ''AI Model loaded in Worker'',
      aiWorkerService = \<lparr>worker = True, isReady = False, pendingRequests = [],
                         restartAttempts = 1, lastRestartTime = 100000\<rparr>\<rparr>"
  by (simp add: AIService_isReady_def isWorkerReady_def isReady_spec_def)

lemma restartTimer_noop: "worker s \<Longrightarrow> \<not> isReady s \<Longrightarrow> restartTimer env s = s"
  by (simp add: restartTimer_def initialize_def)

lemma handleWorkerError_disabled:
  "3 \<le> restartAttempts s \<Longrightarrow> now - lastRestartTime s \<le> 60000 \<Longrightarrow>
   handleWorkerError now s =
     (s\<lparr>pendingRequests := [], isReady := False\<rparr>, pendingRequests s, Disabled)"
  by (simp add: handleWorkerError_def MAX_RESTART_ATTEMPTS_def Let_def)

lemma handleWorkerError_delay:
  "handleWorkerError now s = (s', rej, RestartIn d) \<Longrightarrow>
   \<exists>a<3. restartAttempts s' = a + 1 \<and> d = min (2000 * 2 ^ a) 10000"
  by (auto simp add: handleWorkerError_def MAX_RESTART_ATTEMPTS_def Let_def split: if_splits)

lemma handleWorkerError_schedules:
  "restartAttempts s < 3 \<Longrightarrow> 5000 \<le> now - lastRestartTime s \<Longrightarrow>
   now - lastRestartTime s \<le> 60000 \<Longrightarrow>
   handleWorkerError now s =
     (s\<lparr>pendingRequests := [], isReady := False, restartAttempts := restartAttempts s + 1,
        lastRestartTime := now\<rparr>, pendingRequests s,
      RestartIn (min (2000 * 2 ^ restartAttempts s) 10000))"
  by (simp add: handleWorkerError_def MAX_RESTART_ATTEMPTS_def MIN_RESTART_INTERVAL_def Let_def)

lemma handleWorkerError_after_quiet:
  "60000 < now - lastRestartTime s \<Longrightarrow>
   handleWorkerError now s =
     (s\<lparr>pendingRequests := [], isReady := False, restartAttempts := 1,
        lastRestartTime := now\<rparr>, pendingRequests s, RestartIn 2000)"
  by (simp add: handleWorkerError_def MAX_RESTART_ATTEMPTS_def MIN_RESTART_INTERVAL_def Let_def)

text \<open>Once the client has given up, crashes within 60 seconds of the last restart
  attempt and firings of restart timers change nothing.\<close>

lemma run_events_stopped:
  assumes "worker s" "\<not> isReady s" "pendingRequests s = []" "3 \<le> restartAttempts s"
    and "\<forall>t. Crash t \<in> set evs \<longrightarrow> t - lastRestartTime s \<le> 60000"
  shows "run_events evs s = (s, map (\<lambda>e. Disabled) (filter is_crash evs))"
  using assms
proof (induction evs)
  case Nil
  then show ?case by simp
next
  case (Cons e evs)
  show ?case
  proof (cases e)
    case (Crash t)
    with Cons.prems have "handleWorkerError t s = (s, [], Disabled)"
      by (simp add: handleWorkerError_disabled)
    with Cons Crash show ?thesis by simp
  next
    case (RestartTimerFires env)
    with Cons show ?thesis by (simp add: restartTimer_noop)
  qed
qed

lemma run_events_four:
  assumes w: "worker s" and quiet: "60000 < t1 - lastRestartTime s"
    and gaps: "5000 \<le> t2 - t1" "5000 \<le> t3 - t2" "t3 \<le> t4" "t4 - t1 \<le> 60000"
  shows "run_events [Crash t1, RestartTimerFires e1, Crash t2, RestartTimerFires e2,
                     Crash t3, RestartTimerFires e3, Crash t4] s
         = (s\<lparr>pendingRequests := [], isReady := False, restartAttempts := 3,
               lastRestartTime := t3\<rparr>,
            [RestartIn 2000, RestartIn 4000, RestartIn 8000, Disabled])"
proof -
  let ?s1 = "s\<lparr>pendingRequests := [], isReady := False, restartAttempts := 1,
               lastRestartTime := t1\<rparr>"
  let ?s2 = "s\<lparr>pendingRequests := [], isReady := False, restartAttempts := 2,
               lastRestartTime := t2\<rparr>"
  let ?s3 = "s\<lparr>pendingRequests := [], isReady := False, restartAttempts := 3,
               lastRestartTime := t3\<rparr>"
  have c1: "handleWorkerError t1 s = (?s1, pendingRequests s, RestartIn 2000)"
    using quiet by (simp add: handleWorkerError_after_quiet)
  have c2: "handleWorkerError t2 ?s1 = (?s2, [], RestartIn 4000)"
    using gaps by (simp add: handleWorkerError_schedules)
  have c3: "handleWorkerError t3 ?s2 = (?s3, [], RestartIn 8000)"
    using gaps by (simp add: handleWorkerError_schedules)
  have c4: "handleWorkerError t4 ?s3 = (?s3, [], Disabled)"
    using gaps by (simp add: handleWorkerError_disabled)
  have r1: "restartTimer e1 ?s1 = ?s1" using w by (simp add: restartTimer_noop)
  have r2: "restartTimer e2 ?s2 = ?s2" using w by (simp add: restartTimer_noop)
  have r3: "restartTimer e3 ?s3 = ?s3" using w by (simp add: restartTimer_noop)
  show ?thesis by (simp add: c1 c2 c3 c4 r1 r2 r3 del: One_nat_def)
qed

lemma forceReset_counter:
  "restartAttempts (snd (forceReset env s)) = 0 \<and> lastRestartTime (snd (forceReset env s)) = 0"
  by (simp add: forceReset_def initialize_def split: spawn_env.splits)

text \<open>
  C9 (as amended). Take four crashes of a client that holds a worker handle, the first
  after more than 60 seconds without a restart attempt, the second and the third each at
  least 5 seconds after the crash before, the fourth not earlier than the third and at
  most 60 seconds after the first, with the three restart timers firing in between.
  Then the first three crashes schedule restarts after 2000, 4000 and 8000 ms and the
  fourth schedules none; the client is left not ready with its counter at 3, and any
  further crashes up to 60 seconds after the third one, and any restart timers, leave it
  so. Every restart that any crash schedules is delayed by
  \<open>min (2000 * 2 ^ attempts) 10000\<close> ms for the counter value \<open>attempts < 3\<close> found at that
  crash. \<^verbatim>\<open>forceReset\<close> puts the counter and the time of the last attempt back to 0.
\<close>

theorem restart_bound:
  assumes "worker s" and "60000 < t1 - lastRestartTime s"
    and "5000 \<le> t2 - t1" and "5000 \<le> t3 - t2" and "t3 \<le> t4" and "t4 - t1 \<le> 60000"
    and "\<forall>t. Crash t \<in> set evs \<longrightarrow> t - t3 \<le> 60000"
  shows "run_events [Crash t1, RestartTimerFires e1, Crash t2, RestartTimerFires e2,
                     Crash t3, RestartTimerFires e3, Crash t4] s
           = (s\<lparr>pendingRequests := [], isReady := False, restartAttempts := 3,
                 lastRestartTime := t3\<rparr>,
              [RestartIn 2000, RestartIn 4000, RestartIn 8000, Disabled])
       \<and> run_events evs (s\<lparr>pendingRequests := [], isReady := False, restartAttempts := 3,
                            lastRestartTime := t3\<rparr>)
           = (s\<lparr>pendingRequests := [], isReady := False, restartAttempts := 3,
                 lastRestartTime := t3\<rparr>,
              map (\<lambda>e. Disabled) (filter is_crash evs))
       \<and> (\<forall>now s0 s' rej d. handleWorkerError now s0 = (s', rej, RestartIn d) \<longrightarrow>
            (\<exists>a<3. restartAttempts s' = a + 1 \<and> d = min (2000 * 2 ^ a) 10000))
       \<and> restartAttempts (snd (forceReset env s)) = 0
       \<and> lastRestartTime (snd (forceReset env s)) = 0"
proof -
  have "run_events evs (s\<lparr>pendingRequests := [], isReady := False, restartAttempts := 3,
                          lastRestartTime := t3\<rparr>)
        = (s\<lparr>pendingRequests := [], isReady := False, restartAttempts := 3,
              lastRestartTime := t3\<rparr>,
           map (\<lambda>e. Disabled) (filter is_crash evs))"
    using assms(1,7) by (intro run_events_stopped) simp_all
  moreover have "\<forall>now s0 s' rej d. handleWorkerError now s0 = (s', rej, RestartIn d) \<longrightarrow>
            (\<exists>a<3. restartAttempts s' = a + 1 \<and> d = min (2000 * 2 ^ a) 10000)"
    using handleWorkerError_delay by blast
  ultimately show ?thesis
    using run_events_four [OF assms(1-6)] forceReset_counter by simp
qed

theorem restart_bound_witness:
  "run_events [Crash 100000, RestartTimerFires ModelLoads, Crash 105000,
               RestartTimerFires ModelLoads, Crash 110000, RestartTimerFires ModelLoads,
               Crash 115000]
     \<lparr>worker = True, isReady = True, pendingRequests = [''embed_1''],
      restartAttempts = 0, lastRestartTime = 0\<rparr>
   = (\<lparr>worker = True, isReady = False, pendingRequests = [],
       restartAttempts = 3, lastRestartTime = 110000\<rparr>,
      [RestartIn 2000, RestartIn 4000, RestartIn 8000, Disabled])
   \<and> run_events [Crash 120000, RestartTimerFires ModelLoads, Crash 170000]
       \<lparr>worker = True, isReady = False, pendingRequests = [],
        restartAttempts = 3, lastRestartTime = 110000\<rparr>
     = (\<lparr>worker = True, isReady = False, pendingRequests = [],
         restartAttempts = 3, lastRestartTime = 110000\<rparr>, [Disabled, Disabled])
   \<and> handleWorkerError 200000
       \<lparr>worker = True, isReady = True, pendingRequests = [],
        restartAttempts = 1, lastRestartTime = 190000\<rparr>
     = (\<lparr>worker = True, isReady = False, pendingRequests = [],
         restartAttempts = 2, lastRestartTime = 200000\<rparr>, [], RestartIn 4000)
   \<and> (\<exists>a<3. (2::nat) = a + 1 \<and> (4000::int) = min (2000 * 2 ^ a) 10000)"
proof -
  let ?s = "\<lparr>worker = True, isReady = True, pendingRequests = [''embed_1''],
             restartAttempts = 0, lastRestartTime = 0\<rparr>"
  let ?evs = "[Crash 120000, RestartTimerFires ModelLoads, Crash 170000]"
  have h: "handleWorkerError 200000
       \<lparr>worker = True, isReady = True, pendingRequests = [],
        restartAttempts = 1, lastRestartTime = 190000\<rparr>
     = (\<lparr>worker = True, isReady = False, pendingRequests = [],
         restartAttempts = 2, lastRestartTime = 200000\<rparr>, [], RestartIn 4000)"
    by (simp add: handleWorkerError_def MAX_RESTART_ATTEMPTS_def MIN_RESTART_INTERVAL_def Let_def)
  have "worker ?s" "60000 < 100000 - lastRestartTime ?s"
    "(5000::int) \<le> 105000 - 100000" "(5000::int) \<le> 110000 - 105000"
    "(110000::int) \<le> 115000" "(115000::int) - 100000 \<le> 60000"
    "\<forall>t. Crash t \<in> set ?evs \<longrightarrow> t - 110000 \<le> 60000"
    by auto
  from restart_bound [OF this, of ModelLoads ModelLoads ModelLoads ModelLoads] h
  show ?thesis by simp
qed

text \<open>
  C9 as stated fails: a crash that arrives less than 5 seconds after a restart attempt
  is skipped without counting, so of four crashes within 12 seconds the fourth can
  still schedule a restart (the third attempt).
\<close>

theorem restart_bound_counterexample:
  "snd (run_events [Crash 100000, Crash 101000, RestartTimerFires ModelLoads, Crash 106000,
                    RestartTimerFires ModelLoads, Crash 112000]
          \<lparr>worker = True, isReady = True, pendingRequests = [],
           restartAttempts = 0, lastRestartTime = 0\<rparr>)
   = [RestartIn 2000, TooSoon, RestartIn 4000, RestartIn 8000]"
  by (simp add: handleWorkerError_def restartTimer_def initialize_def
        MAX_RESTART_ATTEMPTS_def MIN_RESTART_INTERVAL_def Let_def)

section \<open>Properties of the embedding store\<close>

lemma getIndexingState_load:
  assumes "disk w = Stored e" "version e = ''2.0.0''"
  shows "getIndexingState ty (db (load w)) = recoverStaleLock (clock w) (getIndexingState ty e)"
  using assms by (cases ty) (simp_all add: load_def getIndexingState_def Let_def)

text \<open>
  C3 (as amended). For every persisted envelope of version 2.0.0 in which a
  collection's \<open>isIndexing\<close> is true and whose heartbeat is recorded: after \<^verbatim>\<open>load()\<close>
  the flag is false if the heartbeat is positive and more than 30 seconds in the past,
  and it is still true if the heartbeat is 10 seconds in the past.
\<close>

theorem load_stale_lock:
  assumes "disk w = Stored e" and "version e = ''2.0.0''"
    and "IndexingState.isIndexing (getIndexingState ty e)"
    and "IndexingState.lastHeartbeat (getIndexingState ty e) = Some hb"
  shows "(0 < hb \<and> 30000 < clock w - hb \<longrightarrow>
            \<not> IndexingState.isIndexing (getIndexingState ty (db (load w))))
       \<and> (clock w - hb = 10000 \<longrightarrow>
            IndexingState.isIndexing (getIndexingState ty (db (load w))))"
  using assms by (simp add: getIndexingState_load recoverStaleLock_def Let_def)


theorem load_stale_lock_witness:
  "\<not> IndexingState.isIndexing (getIndexingState Titles
        (db (load (startupWorld (Stored (lockedEnvelope ''2.0.0'' (Some 69000))) 100000))))
   \<and> IndexingState.isIndexing (getIndexingState Titles
        (db (load (startupWorld (Stored (lockedEnvelope ''2.0.0'' (Some 90000))) 100000))))"
proof -
  let ?stale = "lockedEnvelope ''2.0.0'' (Some 69000)"
  let ?recent = "lockedEnvelope ''2.0.0'' (Some 90000)"
  have a: "disk (startupWorld (Stored ?stale) 100000) = Stored ?stale"
          "version ?stale = ''2.0.0''"
          "IndexingState.isIndexing (getIndexingState Titles ?stale)"
          "IndexingState.lastHeartbeat (getIndexingState Titles ?stale) = Some 69000"
    by (simp_all add: startupWorld_def lockedEnvelope_def getIndexingState_def)
  have b: "disk (startupWorld (Stored ?recent) 100000) = Stored ?recent"
          "version ?recent = ''2.0.0''"
          "IndexingState.isIndexing (getIndexingState Titles ?recent)"
          "IndexingState.lastHeartbeat (getIndexingState Titles ?recent) = Some 90000"
    by (simp_all add: startupWorld_def lockedEnvelope_def getIndexingState_def)
  have c: "clock (startupWorld (Stored ?stale) 100000) = 100000"
          "clock (startupWorld (Stored ?recent) 100000) = 100000"
    by (simp_all add: startupWorld_def)
  from load_stale_lock [OF a] load_stale_lock [OF b] c show ?thesis by simp
qed

text \<open>
  C3 as stated fails twice. A lock whose heartbeat is 0 (or absent, which \<^verbatim>\<open>load()\<close>
  reads as 0) is more than 30 seconds in the past and is kept, because only a positive
  heartbeat counts as stale. And an envelope of another version is discarded, so its
  lock is gone although the heartbeat is 10 seconds old.
\<close>

theorem load_stale_lock_counterexample:
  "IndexingState.isIndexing (getIndexingState Titles
      (db (load (startupWorld (Stored (lockedEnvelope ''2.0.0'' (Some 0))) 100000))))
   \<and> IndexingState.isIndexing (getIndexingState Titles
      (db (load (startupWorld (Stored (lockedEnvelope ''2.0.0'' None)) 100000))))
   \<and> \<not> IndexingState.isIndexing (getIndexingState Titles
      (db (load (startupWorld (Stored (lockedEnvelope ''1.0.0'' (Some 90000))) 100000))))"
  by (simp add: load_def reset_def save_def emit_def getIndexingState_def recoverStaleLock_def
        startupWorld_def lockedEnvelope_def createEmptyDatabase_def createEmptyState_def Let_def)


section \<open>Properties of the semantic search\<close>



























lemma scoreEntries_set:
  "scoreEntries fp q ex emb mk entries acc = Inr out \<Longrightarrow>
   set out = set acc \<union> {mk p data sc | p data sc.
                (p, data) \<in> set entries \<and> \<not> excluded ex p \<and> cosineSimilarity fp q (emb data) = Inr sc}"
proof (induction entries arbitrary: acc)
  case Nil
  then show ?case by simp
next
  case (Cons e entries)
  obtain p data where e: "e = (p, data)" by (cases e)
  show ?case
  proof (cases "excluded ex p")
    case True
    with Cons e show ?thesis by auto
  next
    case False
    with Cons.prems e obtain sc where sc: "cosineSimilarity fp q (emb data) = Inr sc"
      and rest: "scoreEntries fp q ex emb mk entries (acc @ [mk p data sc]) = Inr out"
      by (auto split: sum.splits)
    from Cons.IH [OF rest] sc False e show ?thesis by auto
  qed
qed

lemma mergeBest_step:
  assumes d: "distinct (map fst m)"
    and best: "\<forall>k r. map_of m k = Some r \<longrightarrow>
                 SearchResult.path r = k \<and> r \<in> S
                 \<and> (\<forall>r'\<in>S. SearchResult.path r' = k \<longrightarrow> score r' \<le> score r)"
    and cover: "\<forall>r\<in>S. map_of m (SearchResult.path r) \<noteq> None"
  shows "distinct (map fst (mergeBest m x))"
    and "\<forall>k r. map_of (mergeBest m x) k = Some r \<longrightarrow>
           SearchResult.path r = k \<and> r \<in> insert x S
           \<and> (\<forall>r'\<in>insert x S. SearchResult.path r' = k \<longrightarrow> score r' \<le> score r)"
    and "\<forall>r\<in>insert x S. map_of (mergeBest m x) (SearchResult.path r) \<noteq> None"
proof -
  show "distinct (map fst (mergeBest m x))"
    using d by (simp add: mergeBest_def distinct_update split: option.splits)
  show "\<forall>r\<in>insert x S. map_of (mergeBest m x) (SearchResult.path r) \<noteq> None"
    using cover by (auto simp: mergeBest_def update_conv' split: option.splits)
  show "\<forall>k r. map_of (mergeBest m x) k = Some r \<longrightarrow>
           SearchResult.path r = k \<and> r \<in> insert x S
           \<and> (\<forall>r'\<in>insert x S. SearchResult.path r' = k \<longrightarrow> score r' \<le> score r)"
  proof (cases "map_of m (SearchResult.path x)")
    case None
    then have m': "map_of (mergeBest m x) = (map_of m)(SearchResult.path x \<mapsto> x)"
      by (simp add: mergeBest_def update_conv')
    from None cover have "\<forall>r'\<in>S. SearchResult.path r' \<noteq> SearchResult.path x"
      by metis
    with best show ?thesis unfolding m' by (auto split: if_splits)
  next
    case (Some existing)
    with best have ex: "\<forall>r'\<in>S. SearchResult.path r' = SearchResult.path x \<longrightarrow> score r' \<le> score existing"
      by blast
    show ?thesis
    proof (cases "score x > score existing")
      case True
      with Some have m': "map_of (mergeBest m x) = (map_of m)(SearchResult.path x \<mapsto> x)"
        by (simp add: mergeBest_def update_conv')
      from ex True have "\<forall>r'\<in>S. SearchResult.path r' = SearchResult.path x \<longrightarrow> score r' \<le> score x"
        by fastforce
      with best show ?thesis unfolding m' by (auto split: if_splits)
    next
      case False
      with Some have m': "mergeBest m x = m"
        by (simp add: mergeBest_def)
      from best Some have "SearchResult.path existing = SearchResult.path x" by blast
      with best False Some show ?thesis unfolding m' by (auto split: if_splits)
    qed
  qed
qed

lemma foldl_mergeBest:
  assumes "distinct (map fst m)"
    and "\<forall>k r. map_of m k = Some r \<longrightarrow>
                 SearchResult.path r = k \<and> r \<in> S
                 \<and> (\<forall>r'\<in>S. SearchResult.path r' = k \<longrightarrow> score r' \<le> score r)"
    and "\<forall>r\<in>S. map_of m (SearchResult.path r) \<noteq> None"
  shows "distinct (map fst (foldl mergeBest m xs))
       \<and> (\<forall>k r. map_of (foldl mergeBest m xs) k = Some r \<longrightarrow>
             SearchResult.path r = k \<and> r \<in> S \<union> set xs
             \<and> (\<forall>r'\<in>S \<union> set xs. SearchResult.path r' = k \<longrightarrow> score r' \<le> score r))"
  using assms
proof (induction xs arbitrary: m S)
  case Nil
  then show ?case by simp
next
  case (Cons x xs)
  from Cons.IH [OF mergeBest_step [OF Cons.prems]]
  show ?case by simp
qed

lemma merged_best:
  assumes "(k, r) \<in> set (foldl mergeBest [] xs)"
  shows "SearchResult.path r = k \<and> r \<in> set xs
       \<and> (\<forall>r'\<in>set xs. SearchResult.path r' = k \<longrightarrow> score r' \<le> score r)"
proof -
  have inv: "distinct (map fst (foldl mergeBest [] xs))
       \<and> (\<forall>k r. map_of (foldl mergeBest [] xs) k = Some r \<longrightarrow>
             SearchResult.path r = k \<and> r \<in> {} \<union> set xs
             \<and> (\<forall>r'\<in>{} \<union> set xs. SearchResult.path r' = k \<longrightarrow> score r' \<le> score r))"
    by (rule foldl_mergeBest) simp_all
  with assms have "map_of (foldl mergeBest [] xs) k = Some r"
    by simp
  with inv show ?thesis by simp
qed

lemma merged_distinct: "distinct (map SearchResult.path (map snd (foldl mergeBest [] xs)))"
proof -
  have d: "distinct (map fst (foldl mergeBest [] xs))"
    using foldl_mergeBest [of "[]" "{}" xs] by simp
  have "\<forall>e\<in>set (foldl mergeBest [] xs). (SearchResult.path \<circ> snd) e = fst e"
    using merged_best [of _ _ xs] by auto
  then have "map (SearchResult.path \<circ> snd) (foldl mergeBest [] xs) = map fst (foldl mergeBest [] xs)"
    by (intro map_cong) simp_all
  then show ?thesis unfolding map_map using d by (simp only:)
qed

lemma distinct_map_sort_key: "distinct (map g (sort_key f xs)) = distinct (map g xs)"
  by (simp add: distinct_map)

lemma slice0_take: "\<exists>n. slice0 xs k = take n xs"
  by (auto simp: slice0_def)

text \<open>What the three loops of \<open>findSimilar\<close> collect, and what it returns from it.\<close>

lemma findSimilar_results:
  assumes "findSimilar fp st d q k ex minSc = Inr rs"
  obtains allResults n P where
    "set allResults = candidates fp st d q ex"
    and "rs = take n (filter P (sort_key (\<lambda>r. - score r) (map snd (foldl mergeBest [] allResults))))"
proof -
  from assms obtain r1 r2 allResults where
    r1: "(if aiIndexTitles st
          then scoreEntries fp q ex TitleEmbedding.embedding titleResult (EmbeddingDatabases.titles d) []
          else Inr []) = Inr r1"
    and r2: "(if aiIndexHeadings st
          then scoreEntries fp q ex HeadingEmbedding.embedding headingResult (EmbeddingDatabases.headings d) r1
          else Inr r1) = Inr r2"
    and r3: "(if aiIndexContent st
          then scoreEntries fp q ex ContentEmbedding.embedding contentResult (EmbeddingDatabases.content d) r2
          else Inr r2) = Inr allResults"
    and rs: "rs = slice0 (case minSc of
                             None \<Rightarrow> sort_key (\<lambda>r. - score r) (map snd (foldl mergeBest [] allResults))
                           | Some m \<Rightarrow> if m > 0
                               then filter (\<lambda>r. score r \<ge> m) (sort_key (\<lambda>r. - score r) (map snd (foldl mergeBest [] allResults)))
                               else sort_key (\<lambda>r. - score r) (map snd (foldl mergeBest [] allResults))) k"
    unfolding findSimilar_def Let_def by (auto split: sum.splits)
  have s1: "set r1 = {titleResult p data sc | p data sc. aiIndexTitles st \<and> (p, data) \<in> set (EmbeddingDatabases.titles d)
           \<and> \<not> excluded ex p \<and> cosineSimilarity fp q (TitleEmbedding.embedding data) = Inr sc}"
    using r1 by (auto split: if_splits dest!: scoreEntries_set)
  have s2: "set r2 = set r1 \<union> {headingResult p data sc | p data sc. aiIndexHeadings st \<and> (p, data) \<in> set (EmbeddingDatabases.headings d)
           \<and> \<not> excluded ex p \<and> cosineSimilarity fp q (HeadingEmbedding.embedding data) = Inr sc}"
    using r2 by (auto split: if_splits dest!: scoreEntries_set)
  have s3: "set allResults = set r2 \<union> {contentResult p data sc | p data sc. aiIndexContent st \<and> (p, data) \<in> set (EmbeddingDatabases.content d)
           \<and> \<not> excluded ex p \<and> cosineSimilarity fp q (ContentEmbedding.embedding data) = Inr sc}"
    using r3 by (auto split: if_splits dest!: scoreEntries_set)
  let ?merged = "sort_key (\<lambda>r. - score r) (map snd (foldl mergeBest [] allResults))"
  have "\<exists>P. (case minSc of None \<Rightarrow> ?merged
                | Some m \<Rightarrow> if m > 0 then filter (\<lambda>r. score r \<ge> m) ?merged else ?merged)
             = filter P ?merged"
  proof (cases minSc)
    case None
    then show ?thesis by (intro exI [of _ "\<lambda>r. True"]) simp
  next
    case (Some m)
    show ?thesis
    proof (cases "m > 0")
      case True
      with Some show ?thesis by (intro exI [of _ "\<lambda>r. score r \<ge> m"]) simp
    next
      case False
      with Some show ?thesis by (intro exI [of _ "\<lambda>r. True"]) simp
    qed
  qed
  then obtain P where "rs = slice0 (filter P ?merged) k"
    using rs by auto
  then obtain n where n: "rs = take n (filter P ?merged)"
    using slice0_take by metis
  have "set allResults = candidates fp st d q ex"
    unfolding s3 s2 s1 candidates_def ..
  from that [OF this n] show thesis .
qed


lemma collectionMatch_None:
  "map_of collection p = None \<Longrightarrow> collectionMatch fp enabled emb src collection q p = []"
  by (simp add: collectionMatch_def)

lemma collectionMatch_Some:
  "map_of collection p = Some e \<Longrightarrow>
   collectionMatch fp enabled emb src collection q p =
     (case cosineSimilarity fp q (emb e) of
        Inl err \<Rightarrow> []
      | Inr sc \<Rightarrow> if enabled then [(sc, src)] else [])"
  by (simp add: collectionMatch_def split: sum.splits)

lemma in_collectionMatch:
  "(sc, s) \<in> set (collectionMatch fp enabled emb src collection q p) \<longleftrightarrow>
     s = src \<and> enabled
     \<and> (\<exists>e. map_of collection p = Some e \<and> cosineSimilarity fp q (emb e) = Inr sc)"
proof (cases "map_of collection p")
  case None
  then show ?thesis by (simp add: collectionMatch_None)
next
  case (Some e)
  then show ?thesis
    by (cases "cosineSimilarity fp q (emb e)") (auto simp: collectionMatch_Some)
qed

lemma in_pathMatches:
  "(sc, src) \<in> set (pathMatches fp st d q p) \<longleftrightarrow>
     (src = TitleSource \<and> aiIndexTitles st
        \<and> (\<exists>e. map_of (EmbeddingDatabases.titles d) p = Some e
              \<and> cosineSimilarity fp q (TitleEmbedding.embedding e) = Inr sc))
   \<or> (src = HeadingSource \<and> aiIndexHeadings st
        \<and> (\<exists>e. map_of (EmbeddingDatabases.headings d) p = Some e
              \<and> cosineSimilarity fp q (HeadingEmbedding.embedding e) = Inr sc))
   \<or> (src = ContentSource \<and> aiIndexContent st
        \<and> (\<exists>e. map_of (EmbeddingDatabases.content d) p = Some e
              \<and> cosineSimilarity fp q (ContentEmbedding.embedding e) = Inr sc))"
  unfolding pathMatches_def set_append Un_iff in_collectionMatch by (rule refl)

lemma match_of_result:
  assumes dist: "distinct (map fst (EmbeddingDatabases.titles d))"
      "distinct (map fst (EmbeddingDatabases.headings d))"
      "distinct (map fst (EmbeddingDatabases.content d))"
    and r: "r \<in> candidates fp st d q ex"
  shows "(score r, source r) \<in> set (pathMatches fp st d q (SearchResult.path r))
         \<and> \<not> excluded ex (SearchResult.path r)"
  using r dist
  by (auto simp: candidates_def in_pathMatches titleResult_def headingResult_def contentResult_def)

lemma result_of_match:
  assumes m: "(sc, src) \<in> set (pathMatches fp st d q p)" and ne: "\<not> excluded ex p"
  shows "\<exists>r \<in> candidates fp st d q ex. SearchResult.path r = p \<and> score r = sc"
proof -
  from m consider
      (t) e where "aiIndexTitles st" "map_of (EmbeddingDatabases.titles d) p = Some e"
          "cosineSimilarity fp q (TitleEmbedding.embedding e) = Inr sc"
    | (h) e where "aiIndexHeadings st" "map_of (EmbeddingDatabases.headings d) p = Some e"
          "cosineSimilarity fp q (HeadingEmbedding.embedding e) = Inr sc"
    | (c) e where "aiIndexContent st" "map_of (EmbeddingDatabases.content d) p = Some e"
          "cosineSimilarity fp q (ContentEmbedding.embedding e) = Inr sc"
    unfolding in_pathMatches by blast
  then show ?thesis
  proof cases
    case t
    then have "(p, e) \<in> set (EmbeddingDatabases.titles d)" by (simp add: map_of_SomeD)
    with t ne have "titleResult p e sc \<in> candidates fp st d q ex"
      unfolding candidates_def by blast
    moreover have "SearchResult.path (titleResult p e sc) = p \<and> score (titleResult p e sc) = sc"
      by (simp add: titleResult_def)
    ultimately show ?thesis by blast
  next
    case h
    then have "(p, e) \<in> set (EmbeddingDatabases.headings d)" by (simp add: map_of_SomeD)
    with h ne have "headingResult p e sc \<in> candidates fp st d q ex"
      unfolding candidates_def by blast
    moreover have "SearchResult.path (headingResult p e sc) = p \<and> score (headingResult p e sc) = sc"
      by (simp add: headingResult_def)
    ultimately show ?thesis by blast
  next
    case c
    then have "(p, e) \<in> set (EmbeddingDatabases.content d)" by (simp add: map_of_SomeD)
    with c ne have "contentResult p e sc \<in> candidates fp st d q ex"
      unfolding candidates_def by blast
    moreover have "SearchResult.path (contentResult p e sc) = p \<and> score (contentResult p e sc) = sc"
      by (simp add: contentResult_def)
    ultimately show ?thesis by blast
  qed
qed

text \<open>
  C5. Whenever \<^verbatim>\<open>searchByEmbedding\<close> returns (no stored vector differs in length from
  the query), in whatever arithmetic the scores are computed, on a store whose
  collections have one record per path: no two results
  share a path; every result carries a score and a source that are a match of its path
  in an enabled collection, and no match of that path in any enabled collection scores
  higher; and the results are in descending order of score.
\<close>

theorem searchByEmbedding_merge:
  assumes res: "searchByEmbedding fp st d q options = Inr rs"
    and dist: "distinct (map fst (EmbeddingDatabases.titles d))"
      "distinct (map fst (EmbeddingDatabases.headings d))"
      "distinct (map fst (EmbeddingDatabases.content d))"
  shows "distinct (map SearchResult.path rs)
       \<and> (\<forall>r\<in>set rs. (score r, source r) \<in> set (pathMatches fp st d q (SearchResult.path r))
              \<and> (\<forall>(sc, src)\<in>set (pathMatches fp st d q (SearchResult.path r)). sc \<le> score r))
       \<and> sorted_wrt (\<lambda>a b. score a \<ge> score b) rs"
proof -
  from res obtain allResults n P where
    all: "set allResults = candidates fp st d q (excludePath options)"
    and rs: "rs = take n (filter P (sort_key (\<lambda>r. - score r) (map snd (foldl mergeBest [] allResults))))"
    unfolding searchByEmbedding_def by (rule findSimilar_results)
  let ?m = "foldl mergeBest [] allResults"
  have "set rs \<subseteq> set (filter P (sort_key (\<lambda>r. - score r) (map snd ?m)))"
    unfolding rs by (rule set_take_subset)
  also have "\<dots> \<subseteq> set (sort_key (\<lambda>r. - score r) (map snd ?m))"
    by (rule filter_is_subset)
  also have "\<dots> = snd ` set ?m"
    by simp
  finally have sub: "set rs \<subseteq> snd ` set ?m" .
  have d1: "distinct (map SearchResult.path (sort_key (\<lambda>r. - score r) (map snd ?m)))"
    unfolding distinct_map_sort_key by (rule merged_distinct)
  have distinct_rs: "distinct (map SearchResult.path rs)"
    unfolding rs take_map [symmetric]
    by (intro distinct_take distinct_map_filter d1)
  have "sorted (map (\<lambda>r. - score r) rs)"
    unfolding rs take_map [symmetric]
    by (intro sorted_wrt_take sorted_filter sorted_sort_key)
  then have sorted_rs: "sorted_wrt (\<lambda>a b. score a \<ge> score b) rs"
    by (simp add: sorted_map)
  have best_rs: "(score r, source r) \<in> set (pathMatches fp st d q (SearchResult.path r))
       \<and> (\<forall>(sc, src)\<in>set (pathMatches fp st d q (SearchResult.path r)). sc \<le> score r)"
    if "r \<in> set rs" for r
  proof -
    from that sub have "r \<in> snd ` set ?m" ..
    then obtain k where "(k, r) \<in> set ?m" by force
    from merged_best [OF this] have rin: "r \<in> candidates fp st d q (excludePath options)"
      and best: "\<forall>r'\<in>candidates fp st d q (excludePath options).
                   SearchResult.path r' = SearchResult.path r \<longrightarrow> score r' \<le> score r"
      unfolding all by simp_all
    from match_of_result [OF dist rin]
    have m: "(score r, source r) \<in> set (pathMatches fp st d q (SearchResult.path r))"
      and ne: "\<not> excluded (excludePath options) (SearchResult.path r)"
      by simp_all
    have "sc \<le> score r" if "(sc, src) \<in> set (pathMatches fp st d q (SearchResult.path r))" for sc src
    proof -
      from result_of_match [OF that ne] obtain r' where
        "r' \<in> candidates fp st d q (excludePath options)"
        "SearchResult.path r' = SearchResult.path r" "score r' = sc"
        by blast
      with best show ?thesis by blast
    qed
    with m show ?thesis by auto
  qed
  from distinct_rs best_rs sorted_rs show ?thesis by (intro conjI ballI) simp_all
qed

theorem searchByEmbedding_merge_witness:
  "searchByEmbedding exactReal allEnabled searchDb [1, 0] noOptions =
     Inr [\<lparr>SearchResult.path = ''notes/a.md'', score = 1, title = ''a'', excerpt = ''alpha'',
           source = ContentSource\<rparr>,
          \<lparr>SearchResult.path = ''b.md'', score = 3 / 5, title = ''b'', excerpt = ''b'',
           source = TitleSource\<rparr>]
   \<and> pathMatches exactReal allEnabled searchDb [1, 0] ''notes/a.md''
       = [(0, TitleSource), (0, HeadingSource), (1, ContentSource)]
   \<and> distinct (map SearchResult.path
          [\<lparr>SearchResult.path = ''notes/a.md'', score = 1, title = ''a'', excerpt = ''alpha'',
            source = ContentSource\<rparr>,
           \<lparr>SearchResult.path = ''b.md'', score = 3 / 5, title = ''b'', excerpt = ''b'',
            source = TitleSource\<rparr>])
   \<and> (1, ContentSource) \<in> set (pathMatches exactReal allEnabled searchDb [1, 0] ''notes/a.md'')
   \<and> sorted_wrt (\<lambda>a b. score a \<ge> score b)
          [\<lparr>SearchResult.path = ''notes/a.md'', score = 1, title = ''a'', excerpt = ''alpha'',
            source = ContentSource\<rparr>,
           \<lparr>SearchResult.path = ''b.md'', score = 3 / 5, title = ''b'', excerpt = ''b'',
            source = TitleSource\<rparr>]"
proof -
  let ?r1 = "\<lparr>SearchResult.path = ''notes/a.md'', score = 1, title = ''a'', excerpt = ''alpha'',
             source = ContentSource\<rparr>"
  let ?r2 = "\<lparr>SearchResult.path = ''b.md'', score = 3 / 5, title = ''b'', excerpt = ''b'',
             source = TitleSource\<rparr>"
  have res: "searchByEmbedding exactReal allEnabled searchDb [1, 0] noOptions = Inr [?r1, ?r2]"
    by (simp add: searchByEmbedding_def findSimilar_def allEnabled_def searchDb_def noOptions_def
          createEmptyDatabase_def excluded_def cosineSimilarity_def exactReal_def titleResult_def
          headingResult_def contentResult_def mergeBest_def slice0_def getFileTitle_def
          real_sqrt_mult [symmetric] Let_def)
  have m: "pathMatches exactReal allEnabled searchDb [1, 0] ''notes/a.md''
           = [(0, TitleSource), (0, HeadingSource), (1, ContentSource)]"
    by (simp add: pathMatches_def collectionMatch_def allEnabled_def searchDb_def
          createEmptyDatabase_def cosineSimilarity_def exactReal_def)
  have d: "distinct (map fst (EmbeddingDatabases.titles searchDb))"
          "distinct (map fst (EmbeddingDatabases.headings searchDb))"
          "distinct (map fst (EmbeddingDatabases.content searchDb))"
    by (simp_all add: searchDb_def createEmptyDatabase_def)
  note merge = searchByEmbedding_merge [OF res d]
  have "?r1 \<in> set [?r1, ?r2]"
    by simp
  from merge [THEN conjunct2, THEN conjunct1, THEN bspec, OF this, THEN conjunct1]
  have best: "(1, ContentSource) \<in> set (pathMatches exactReal allEnabled searchDb [1, 0] ''notes/a.md'')"
    by simp
  show ?thesis
    by (rule conjI [OF res conjI [OF m conjI [OF merge [THEN conjunct1]
          conjI [OF best merge [THEN conjunct2, THEN conjunct2]]]]])
qed

section \<open>Properties of the indexing engine\<close>

text \<open>
  C7. For a document whose title, heading and content records all carry the document's
  current modification time, \<^verbatim>\<open>indexNote\<close> does nothing but the optional save: it adds
  no request to the inference service to the trace and leaves the three collections as
  they are.
\<close>

theorem indexNote_idempotent:
  assumes "getTitleEmbedding (TFile.path file) (db w) = Some t"
      and "TitleEmbedding.lastModified t = mtime file"
      and "getHeadingEmbedding (TFile.path file) (db w) = Some hr"
      and "HeadingEmbedding.lastModified hr = mtime file"
      and "getContentEmbedding (TFile.path file) (db w) = Some c"
      and "ContentEmbedding.lastModified c = mtime file"
  shows "indexNote h file saveIt w = (if saveIt then save w else w)
       \<and> filter is_embed (trace (indexNote h file saveIt w)) = filter is_embed (trace w)
       \<and> EmbeddingDatabases.titles (db (indexNote h file saveIt w)) = EmbeddingDatabases.titles (db w)
       \<and> EmbeddingDatabases.headings (db (indexNote h file saveIt w)) = EmbeddingDatabases.headings (db w)
       \<and> EmbeddingDatabases.content (db (indexNote h file saveIt w)) = EmbeddingDatabases.content (db w)"
proof -
  have t: "indexTitle h file w = w"
    using assms(1,2) by (simp add: indexTitle_def)
  have hdr: "indexHeadings h file w = w"
    using assms(3,4) by (simp add: indexHeadings_def)
  have c: "indexContent h file w = w"
    using assms(5,6) by (simp add: indexContent_def)
  have "indexNote h file saveIt w = (if saveIt then save w else w)"
    by (simp add: indexNote_def t hdr c)
  then show ?thesis
    by (simp add: save_def emit_def Let_def)
qed

theorem indexNote_idempotent_witness:
  "indexNote (quietHost allEnabled [noteA]) noteA True
       ((startupWorld Missing 100)\<lparr>db := searchDb\<rparr>)
     = save ((startupWorld Missing 100)\<lparr>db := searchDb\<rparr>)
   \<and> filter is_embed (trace (indexNote (quietHost allEnabled [noteA]) noteA True
         ((startupWorld Missing 100)\<lparr>db := searchDb\<rparr>))) = []
   \<and> EmbeddingDatabases.titles (db (indexNote (quietHost allEnabled [noteA]) noteA True
         ((startupWorld Missing 100)\<lparr>db := searchDb\<rparr>))) = EmbeddingDatabases.titles searchDb"
proof -
  let ?w = "(startupWorld Missing 100)\<lparr>db := searchDb\<rparr>"
  have a: "getTitleEmbedding (TFile.path noteA) (db ?w)
             = Some \<lparr>TitleEmbedding.path = ''notes/a.md'', embedding = [0, 1],
                     lastModified = 10, title = ''a''\<rparr>"
          "TitleEmbedding.lastModified \<lparr>TitleEmbedding.path = ''notes/a.md'', embedding = [0, 1],
                     lastModified = 10, title = ''a''\<rparr> = mtime noteA"
          "getHeadingEmbedding (TFile.path noteA) (db ?w)
             = Some \<lparr>HeadingEmbedding.path = ''notes/a.md'', embedding = [0, 2],
                     lastModified = 10, headings = [''Intro'', ''Outlook'']\<rparr>"
          "HeadingEmbedding.lastModified \<lparr>HeadingEmbedding.path = ''notes/a.md'',
                     embedding = [0, 2], lastModified = 10,
                     headings = [''Intro'', ''Outlook'']\<rparr> = mtime noteA"
          "getContentEmbedding (TFile.path noteA) (db ?w)
             = Some \<lparr>ContentEmbedding.path = ''notes/a.md'', embedding = [1, 0],
                     lastModified = 10, excerpt = ''alpha''\<rparr>"
          "ContentEmbedding.lastModified \<lparr>ContentEmbedding.path = ''notes/a.md'',
                     embedding = [1, 0], lastModified = 10, excerpt = ''alpha''\<rparr> = mtime noteA"
    by (simp_all add: getTitleEmbedding_def getHeadingEmbedding_def getContentEmbedding_def
          searchDb_def noteA_def createEmptyDatabase_def)
  have b: "trace ?w = []" "db ?w = searchDb"
    by (simp_all add: startupWorld_def)
  note idem = indexNote_idempotent [OF a, of "quietHost allEnabled [noteA]" True]
  from idem [THEN conjunct1]
  have 1: "indexNote (quietHost allEnabled [noteA]) noteA True ?w = save ?w"
    by (simp only: if_True)
  from idem [THEN conjunct2, THEN conjunct1]
  have 2: "filter is_embed (trace (indexNote (quietHost allEnabled [noteA]) noteA True ?w)) = []"
    by (simp only: b filter.simps)
  from idem [THEN conjunct2, THEN conjunct2, THEN conjunct1]
  have 3: "EmbeddingDatabases.titles (db (indexNote (quietHost allEnabled [noteA]) noteA True ?w))
           = EmbeddingDatabases.titles searchDb"
    by (simp only: b)
  show ?thesis by (rule conjI [OF 1 conjI [OF 2 3]])
qed

text \<open>
  C8 (as amended). \<^verbatim>\<open>updateNoteIfNeeded\<close> re-indexes the document (calls
  \<^verbatim>\<open>indexNote\<close>) exactly when none of the three collections, enabled or not, has a
  record for the path, or some record of the path in one of the three collections has
  a modification time other than the document's; in every other case the store, the
  file and the trace are left as they are.
\<close>

theorem updateNoteIfNeeded_decision:
  "(((getTitleEmbedding (TFile.path file) (db w) = None
      \<and> getHeadingEmbedding (TFile.path file) (db w) = None
      \<and> getContentEmbedding (TFile.path file) (db w) = None)
     \<or> (\<exists>e. getTitleEmbedding (TFile.path file) (db w) = Some e
           \<and> TitleEmbedding.lastModified e \<noteq> mtime file)
     \<or> (\<exists>e. getHeadingEmbedding (TFile.path file) (db w) = Some e
           \<and> HeadingEmbedding.lastModified e \<noteq> mtime file)
     \<or> (\<exists>e. getContentEmbedding (TFile.path file) (db w) = Some e
           \<and> ContentEmbedding.lastModified e \<noteq> mtime file))
    \<longrightarrow> updateNoteIfNeeded h file w = indexNote h file True w)
   \<and> (\<not> ((getTitleEmbedding (TFile.path file) (db w) = None
      \<and> getHeadingEmbedding (TFile.path file) (db w) = None
      \<and> getContentEmbedding (TFile.path file) (db w) = None)
     \<or> (\<exists>e. getTitleEmbedding (TFile.path file) (db w) = Some e
           \<and> TitleEmbedding.lastModified e \<noteq> mtime file)
     \<or> (\<exists>e. getHeadingEmbedding (TFile.path file) (db w) = Some e
           \<and> HeadingEmbedding.lastModified e \<noteq> mtime file)
     \<or> (\<exists>e. getContentEmbedding (TFile.path file) (db w) = Some e
           \<and> ContentEmbedding.lastModified e \<noteq> mtime file))
    \<longrightarrow> updateNoteIfNeeded h file w = w)"
  by (auto simp: updateNoteIfNeeded_def Let_def split: option.splits)

theorem updateNoteIfNeeded_decision_witness:
  "updateNoteIfNeeded (quietHost allEnabled [noteA, noteC]) noteC
       ((startupWorld Missing 100)\<lparr>db := searchDb\<rparr>)
     = indexNote (quietHost allEnabled [noteA, noteC]) noteC True
         ((startupWorld Missing 100)\<lparr>db := searchDb\<rparr>)
   \<and> updateNoteIfNeeded (quietHost allEnabled [noteA, noteC]) noteA
       ((startupWorld Missing 100)\<lparr>db := searchDb\<rparr>)
     = (startupWorld Missing 100)\<lparr>db := searchDb\<rparr>"
proof -
  let ?w = "(startupWorld Missing 100)\<lparr>db := searchDb\<rparr>"
  have c: "getTitleEmbedding (TFile.path noteC) (db ?w) = None"
          "getHeadingEmbedding (TFile.path noteC) (db ?w) = None"
          "getContentEmbedding (TFile.path noteC) (db ?w) = None"
    by (simp_all add: getTitleEmbedding_def getHeadingEmbedding_def getContentEmbedding_def
          searchDb_def noteC_def createEmptyDatabase_def startupWorld_def)
  have a: "getTitleEmbedding (TFile.path noteA) (db ?w)
             = Some \<lparr>TitleEmbedding.path = ''notes/a.md'', embedding = [0, 1],
                     lastModified = 10, title = ''a''\<rparr>"
          "getHeadingEmbedding (TFile.path noteA) (db ?w)
             = Some \<lparr>HeadingEmbedding.path = ''notes/a.md'', embedding = [0, 2],
                     lastModified = 10, headings = [''Intro'', ''Outlook'']\<rparr>"
          "getContentEmbedding (TFile.path noteA) (db ?w)
             = Some \<lparr>ContentEmbedding.path = ''notes/a.md'', embedding = [1, 0],
                     lastModified = 10, excerpt = ''alpha''\<rparr>"
          "mtime noteA = 10"
    by (simp_all add: getTitleEmbedding_def getHeadingEmbedding_def getContentEmbedding_def
          searchDb_def noteA_def createEmptyDatabase_def startupWorld_def)
  from updateNoteIfNeeded_decision [of noteC ?w "quietHost allEnabled [noteA, noteC]"] c
  have 1: "updateNoteIfNeeded (quietHost allEnabled [noteA, noteC]) noteC ?w
           = indexNote (quietHost allEnabled [noteA, noteC]) noteC True ?w"
    by simp
  from updateNoteIfNeeded_decision [of noteA ?w "quietHost allEnabled [noteA, noteC]"] a
  have 2: "updateNoteIfNeeded (quietHost allEnabled [noteA, noteC]) noteA ?w = ?w"
    by simp
  from 1 2 show ?thesis by simp
qed

text \<open>
  C8 as stated fails: with only titles enabled, a document that has no title record
  but an up-to-date heading record (left from a time when headings were enabled) has no
  record in any enabled collection, yet \<^verbatim>\<open>updateNoteIfNeeded\<close> does nothing, although
  \<^verbatim>\<open>indexNote\<close> would request a title embedding.
\<close>

theorem updateNoteIfNeeded_counterexample:
  "specNeedsUpdate
     (quietHost \<lparr>aiIndexTitles = True, aiIndexHeadings = False, aiIndexContent = False\<rparr> [noteC])
     noteC
     ((createEmptyDatabase 0)\<lparr>EmbeddingDatabases.headings :=
        [(''c.md'', \<lparr>HeadingEmbedding.path = ''c.md'', embedding = [0, 1],
                    lastModified = 30, headings = [''Intro'']\<rparr>)]\<rparr>)
   \<and> updateNoteIfNeeded
       (quietHost \<lparr>aiIndexTitles = True, aiIndexHeadings = False, aiIndexContent = False\<rparr> [noteC])
       noteC
       ((startupWorld Missing 100)\<lparr>db := (createEmptyDatabase 0)\<lparr>EmbeddingDatabases.headings :=
          [(''c.md'', \<lparr>HeadingEmbedding.path = ''c.md'', embedding = [0, 1],
                      lastModified = 30, headings = [''Intro'']\<rparr>)]\<rparr>\<rparr>)
     = (startupWorld Missing 100)\<lparr>db := (createEmptyDatabase 0)\<lparr>EmbeddingDatabases.headings :=
          [(''c.md'', \<lparr>HeadingEmbedding.path = ''c.md'', embedding = [0, 1],
                      lastModified = 30, headings = [''Intro'']\<rparr>)]\<rparr>\<rparr>
   \<and> filter is_embed (trace (indexNote
       (quietHost \<lparr>aiIndexTitles = True, aiIndexHeadings = False, aiIndexContent = False\<rparr> [noteC])
       noteC True
       ((startupWorld Missing 100)\<lparr>db := (createEmptyDatabase 0)\<lparr>EmbeddingDatabases.headings :=
          [(''c.md'', \<lparr>HeadingEmbedding.path = ''c.md'', embedding = [0, 1],
                      lastModified = 30, headings = [''Intro'']\<rparr>)]\<rparr>\<rparr>)))
     = [EmbedRequest ''c'' Passage]"
  by (simp add: specNeedsUpdate_def updateNoteIfNeeded_def indexNote_def indexTitle_def
        generatePassageEmbedding_def AIService_generateEmbedding_def AIService_isReady_def
        worker_generateEmbedding_def quietHost_def readyService_def noteC_def
        getTitleEmbedding_def getHeadingEmbedding_def getContentEmbedding_def
        setTitleEmbedding_def createEmptyDatabase_def startupWorld_def save_def emit_def Let_def)

subsection \<open>What the steps of a pass leave unchanged\<close>

lemma written_append [frame]: "written (xs @ ys) = written xs @ written ys"
  by (induction xs rule: written.induct) simp_all

lemma emit_fields [frame]:
  "db (emit e w) = db w" "disk (emit e w) = disk w" "writable (emit e w) = writable w"
  "clock (emit e w) = clock w" "cancelIndexing (emit e w) = cancelIndexing w"
  "trace (emit e w) = trace w @ [e]"
  by (simp_all add: emit_def)

lemma getIndexingState_updates [frame]:
  "getIndexingState ty (d\<lparr>lastUpdate := u\<rparr>) = getIndexingState ty d"
  "getIndexingState ty (d\<lparr>EmbeddingDatabases.titles := ts\<rparr>) = getIndexingState ty d"
  "getIndexingState ty (d\<lparr>EmbeddingDatabases.headings := hs\<rparr>) = getIndexingState ty d"
  "getIndexingState ty (d\<lparr>EmbeddingDatabases.content := cs\<rparr>) = getIndexingState ty d"
  by (simp_all add: getIndexingState_def split: IndexType.splits)

lemma getIndexingState_set [frame]:
  "getIndexingState ty (setIndexingState ty' p d) =
     (if ty = ty' then assign (getIndexingState ty d) p else getIndexingState ty d)"
  by (cases ty; cases ty') (simp_all add: getIndexingState_def setIndexingState_def Let_def)

lemma getIndexingState_embeddings [frame]:
  "getIndexingState ty (setTitleEmbedding p t d) = getIndexingState ty d"
  "getIndexingState ty (setHeadingEmbedding p he d) = getIndexingState ty d"
  "getIndexingState ty (setContentEmbedding p c d) = getIndexingState ty d"
  "getIndexingState ty (removeTitleEmbedding p d) = getIndexingState ty d"
  "getIndexingState ty (removeHeadingEmbedding p d) = getIndexingState ty d"
  "getIndexingState ty (removeContentEmbedding p d) = getIndexingState ty d"
  by (simp_all add: getIndexingState_def setTitleEmbedding_def setHeadingEmbedding_def
        setContentEmbedding_def removeTitleEmbedding_def removeHeadingEmbedding_def
        removeContentEmbedding_def split: IndexType.splits)

lemma save_fields [frame]:
  "db (save w) = (db w)\<lparr>lastUpdate := clock w\<rparr>"
  "disk (save w) = (if writable w then Stored ((db w)\<lparr>lastUpdate := clock w\<rparr>) else disk w)"
  "writable (save w) = writable w" "clock (save w) = clock w"
  "cancelIndexing (save w) = cancelIndexing w"
  "trace (save w) = trace w @ [Written ((db w)\<lparr>lastUpdate := clock w\<rparr>)]"
  by (simp_all add: save_def emit_def Let_def)

lemma triggerIndexingUpdate_fields [frame]:
  "db (triggerIndexingUpdate ty a b w) = db w" "disk (triggerIndexingUpdate ty a b w) = disk w"
  "writable (triggerIndexingUpdate ty a b w) = writable w"
  "clock (triggerIndexingUpdate ty a b w) = clock w"
  "cancelIndexing (triggerIndexingUpdate ty a b w) = cancelIndexing w"
  "written (trace (triggerIndexingUpdate ty a b w)) = written (trace w)"
  by (simp_all add: triggerIndexingUpdate_def emit_def Let_def written_append)

lemma generatePassageEmbedding_fields [frame]:
  "db (snd (generatePassageEmbedding h text w)) = db w"
  "disk (snd (generatePassageEmbedding h text w)) = disk w"
  "writable (snd (generatePassageEmbedding h text w)) = writable w"
  "clock (snd (generatePassageEmbedding h text w)) = clock w"
  "cancelIndexing (snd (generatePassageEmbedding h text w)) = cancelIndexing w"
  "written (trace (snd (generatePassageEmbedding h text w))) = written (trace w)"
  by (simp_all add: generatePassageEmbedding_def emit_def written_append)

text \<open>The per-document routines touch the collections and the trace only.\<close>

lemma indexTitle_fields [frame]:
  "getIndexingState ty (db (indexTitle h file w)) = getIndexingState ty (db w)"
  "disk (indexTitle h file w) = disk w" "writable (indexTitle h file w) = writable w"
  "clock (indexTitle h file w) = clock w"
  "cancelIndexing (indexTitle h file w) = cancelIndexing w"
  "written (trace (indexTitle h file w)) = written (trace w)"
  by (simp_all add: indexTitle_def generatePassageEmbedding_def emit_def written_append
        getIndexingState_embeddings Let_def split: option.splits)

lemma indexHeadings_fields [frame]:
  "getIndexingState ty (db (indexHeadings h file w)) = getIndexingState ty (db w)"
  "disk (indexHeadings h file w) = disk w" "writable (indexHeadings h file w) = writable w"
  "clock (indexHeadings h file w) = clock w"
  "cancelIndexing (indexHeadings h file w) = cancelIndexing w"
  "written (trace (indexHeadings h file w)) = written (trace w)"
  by (simp_all add: indexHeadings_def generatePassageEmbedding_def emit_def written_append
        getIndexingState_embeddings Let_def split: option.splits)

lemma indexContent_fields [frame]:
  "getIndexingState ty (db (indexContent h file w)) = getIndexingState ty (db w)"
  "disk (indexContent h file w) = disk w" "writable (indexContent h file w) = writable w"
  "clock (indexContent h file w) = clock w"
  "cancelIndexing (indexContent h file w) = cancelIndexing w"
  "written (trace (indexContent h file w)) = written (trace w)"
  by (simp_all add: indexContent_def generatePassageEmbedding_def emit_def written_append
        getIndexingState_embeddings Let_def split: option.splits)

lemma indexOne_fields [frame]:
  "getIndexingState ty (db (indexOne type h file w)) = getIndexingState ty (db w)"
  "disk (indexOne type h file w) = disk w" "writable (indexOne type h file w) = writable w"
  "clock (indexOne type h file w) = clock w"
  "cancelIndexing (indexOne type h file w) = cancelIndexing w"
  "written (trace (indexOne type h file w)) = written (trace w)"
  by (cases type; simp add: indexOne_def indexTitle_fields indexHeadings_fields indexContent_fields)+

lemma foldl_indexOne_fields [frame]:
  "getIndexingState ty (db (foldl (\<lambda>acc file. indexOne type h file acc) w fs)) = getIndexingState ty (db w)"
  "disk (foldl (\<lambda>acc file. indexOne type h file acc) w fs) = disk w"
  "writable (foldl (\<lambda>acc file. indexOne type h file acc) w fs) = writable w"
  "clock (foldl (\<lambda>acc file. indexOne type h file acc) w fs) = clock w"
  "cancelIndexing (foldl (\<lambda>acc file. indexOne type h file acc) w fs) = cancelIndexing w"
  "written (trace (foldl (\<lambda>acc file. indexOne type h file acc) w fs)) = written (trace w)"
  by (induction fs arbitrary: w; simp add: indexOne_fields)+

lemma progressWrapper_fields [frame]:
  "db (snd (progressWrapper ty op a b w)) = db w"
  "disk (snd (progressWrapper ty op a b w)) = disk w"
  "writable (snd (progressWrapper ty op a b w)) = writable w"
  "clock (snd (progressWrapper ty op a b w)) = clock w"
  "cancelIndexing (snd (progressWrapper ty op a b w)) = cancelIndexing w"
  "written (trace (snd (progressWrapper ty op a b w))) = written (trace w)"
  by (simp_all add: progressWrapper_def frame Let_def split: option.splits completion.splits)

lemma progressWrapper_returns:
  "nonThrowing op \<Longrightarrow> fst (progressWrapper ty op a b w) = Returned"
  by (simp add: progressWrapper_def nonThrowing_def Let_def split: option.splits completion.splits)

lemma indexChunk_unfold:
  "indexChunk type h (Some cb) files i n w =
     (let wa = afterDelay type h i w;
          chunk = take (chunkSize (INDEXING_PARAMS type)) (drop i files);
          n' = n + int (length chunk);
          w2 = foldl (\<lambda>acc file. indexOne type h file acc) wa chunk;
          r = cb n' (int (length files))
                (w2\<lparr>db := setIndexingState type
                     (noPatch\<lparr>IndexingStatePatch.progress := Some n',
                              IndexingStatePatch.lastHeartbeat := Some (clock w2)\<rparr>) (db w2)\<rparr>)
      in if fst r = Threw then (Threw, n', snd r)
         else (Returned, n',
               if n' mod saveEvery (INDEXING_PARAMS type) = 0
               then triggerIndexingUpdate type (Some n') (Some (int (length files))) (save (snd r))
               else snd r))"
  unfolding indexChunk_def afterDelay_def Let_def
  by (simp split: prod.splits completion.splits)

lemma indexChunk_fields:
  fixes type h op files i n w
  defines "r \<equiv> indexChunk type h (Some (progressWrapper type op)) files i n w"
    and "wa \<equiv> afterDelay type h i w"
    and "n' \<equiv> n + int (length (take (chunkSize (INDEXING_PARAMS type)) (drop i files)))"
  shows "fst (snd r) = n'"
    and "cancelIndexing (snd (snd r)) = cancelIndexing wa"
    and "writable (snd (snd r)) = writable wa"
    and "clock (snd (snd r)) = clock wa"
    and "getIndexingState ty (db (snd (snd r))) =
           (if ty = type
            then assign (getIndexingState ty (db wa))
                   (noPatch\<lparr>IndexingStatePatch.progress := Some n',
                            IndexingStatePatch.lastHeartbeat := Some (clock wa)\<rparr>)
            else getIndexingState ty (db wa))"
    and "nonThrowing op \<Longrightarrow> fst r = Returned"
    and "nonThrowing op \<Longrightarrow>
         map (getIndexingState ty) (written (trace (snd (snd r)))) =
           map (getIndexingState ty) (written (trace wa))
           @ (if n' mod saveEvery (INDEXING_PARAMS type) = 0
              then [getIndexingState ty (db (snd (snd r)))] else [])"
  unfolding r_def wa_def n'_def indexChunk_unfold Let_def
  by (simp_all add: frame progressWrapper_returns)

lemma chunkSize_pos: "0 < chunkSize (INDEXING_PARAMS type)"
  by (cases type) (simp_all add: INDEXING_PARAMS_def)

lemma indexAllOf_done:
  "\<not> i < length files \<Longrightarrow> indexAllOf type h cb files i n w = (Returned, w)"
  by (subst indexAllOf.simps) simp

lemma indexAllOf_cancelled:
  "cancelIndexing w \<Longrightarrow> indexAllOf type h cb files i n w = (Returned, w)"
  by (subst indexAllOf.simps) simp

lemma indexAllOf_step:
  assumes "i < length files" "\<not> cancelIndexing w"
    and "fst (indexChunk type h cb files i n w) = Returned"
  shows "indexAllOf type h cb files i n w =
           indexAllOf type h cb files (i + chunkSize (INDEXING_PARAMS type))
             (fst (snd (indexChunk type h cb files i n w)))
             (snd (snd (indexChunk type h cb files i n w)))"
  using assms by (subst indexAllOf.simps) (auto split: prod.splits completion.splits)

lemma indexAllOf_threw:
  assumes "i < length files" "\<not> cancelIndexing w"
    and "fst (indexChunk type h cb files i n w) = Threw"
  shows "indexAllOf type h cb files i n w = (Threw, snd (snd (indexChunk type h cb files i n w)))"
  using assms by (subst indexAllOf.simps) (auto split: prod.splits completion.splits)

text \<open>An induction rule for the loop run with the callback of \<open>indexSpecificType\<close>.\<close>

lemma indexAllOf_wrapper_induct [consumes 1, case_names stop step]:
  assumes nt: "nonThrowing op"
    and stop: "\<And>i n w. \<not> i < length files \<or> cancelIndexing w \<Longrightarrow> P i n w (Returned, w)"
    and step: "\<And>i n w. i < length files \<Longrightarrow> \<not> cancelIndexing w \<Longrightarrow>
        P (i + chunkSize (INDEXING_PARAMS type))
          (fst (snd (indexChunk type h (Some (progressWrapper type op)) files i n w)))
          (snd (snd (indexChunk type h (Some (progressWrapper type op)) files i n w)))
          (indexAllOf type h (Some (progressWrapper type op)) files
             (i + chunkSize (INDEXING_PARAMS type))
             (fst (snd (indexChunk type h (Some (progressWrapper type op)) files i n w)))
             (snd (snd (indexChunk type h (Some (progressWrapper type op)) files i n w)))) \<Longrightarrow>
        P i n w
          (indexAllOf type h (Some (progressWrapper type op)) files
             (i + chunkSize (INDEXING_PARAMS type))
             (fst (snd (indexChunk type h (Some (progressWrapper type op)) files i n w)))
             (snd (snd (indexChunk type h (Some (progressWrapper type op)) files i n w))))"
  shows "P i n w (indexAllOf type h (Some (progressWrapper type op)) files i n w)"
proof (induction "length files - i" arbitrary: i n w rule: less_induct)
  case less
  show ?case
  proof (cases "i < length files \<and> \<not> cancelIndexing w")
    case False
    then have c: "\<not> i < length files \<or> cancelIndexing w"
      by blast
    then have "indexAllOf type h (Some (progressWrapper type op)) files i n w = (Returned, w)"
      using indexAllOf_done [of i files] indexAllOf_cancelled [of w] by blast
    with stop [OF c] show ?thesis by (simp only:)
  next
    case True
    let ?r = "indexChunk type h (Some (progressWrapper type op)) files i n w"
    have ret: "fst ?r = Returned"
      using nt by (rule indexChunk_fields(6))
    from True have eq: "indexAllOf type h (Some (progressWrapper type op)) files i n w =
        indexAllOf type h (Some (progressWrapper type op)) files
          (i + chunkSize (INDEXING_PARAMS type)) (fst (snd ?r)) (snd (snd ?r))"
      using ret by (intro indexAllOf_step) simp_all
    have "length files - (i + chunkSize (INDEXING_PARAMS type)) < length files - i"
      using True chunkSize_pos [of type] by linarith
    then have "P (i + chunkSize (INDEXING_PARAMS type)) (fst (snd ?r)) (snd (snd ?r))
            (indexAllOf type h (Some (progressWrapper type op)) files
               (i + chunkSize (INDEXING_PARAMS type)) (fst (snd ?r)) (snd (snd ?r)))"
      by (rule less.hyps)
    from step [OF _ _ this] True show ?thesis unfolding eq by blast
  qed
qed

lemma indexAllOf_returns:
  assumes "nonThrowing op"
  shows "fst (indexAllOf type h (Some (progressWrapper type op)) files i n w) = Returned"
  using assms by (induction rule: indexAllOf_wrapper_induct) simp_all

lemma savedProgress_map:
  "savedProgress type es = map IndexingState.progress (map (getIndexingState type) (written es))"
  by (simp add: savedProgress_def)

lemma cancelBackgroundIndexing_fields [frame]:
  "db (cancelBackgroundIndexing w) = db w" "disk (cancelBackgroundIndexing w) = disk w"
  "writable (cancelBackgroundIndexing w) = writable w"
  "clock (cancelBackgroundIndexing w) = clock w"
  "written (trace (cancelBackgroundIndexing w)) = written (trace w)"
  by (simp_all add: cancelBackgroundIndexing_def frame)

lemma getIndexingState_setAllIndexingFalse [frame]:
  "getIndexingState ty (setAllIndexingFalse d) =
     (getIndexingState ty d)\<lparr>IndexingState.isIndexing := False\<rparr>"
  by (cases ty) (simp_all add: setAllIndexingFalse_def frame assign_def noPatch_def)

lemma cancelCleanup_fields [frame]:
  "getIndexingState ty (db (cancelCleanup w)) =
     (getIndexingState ty (db w))\<lparr>IndexingState.isIndexing := False\<rparr>"
  "writable (cancelCleanup w) = writable w" "clock (cancelCleanup w) = clock w"
  "cancelIndexing (cancelCleanup w) = cancelIndexing w"
  by (simp_all add: cancelCleanup_def frame)

lemma run_async_fields [frame]:
  "writable (run_async evs w) = writable w" "clock (run_async evs w) = clock w"
  "IndexingState.total (getIndexingState ty (db (run_async evs w)))
     = IndexingState.total (getIndexingState ty (db w))"
  by (induction evs w rule: run_async.induct) (simp_all add: frame)

lemma afterDelay_fields [frame]:
  "writable (afterDelay type h i w) = writable w"
  "clock (afterDelay type h i w) = clock w + delayMs (INDEXING_PARAMS type)"
  "IndexingState.total (getIndexingState ty (db (afterDelay type h i w)))
     = IndexingState.total (getIndexingState ty (db w))"
  by (simp_all add: afterDelay_def frame)

lemma afterDelay_quiet:
  assumes "interrupts h i = []"
  shows "db (afterDelay type h i w) = db w" "disk (afterDelay type h i w) = disk w"
    "cancelIndexing (afterDelay type h i w) = cancelIndexing w"
    "written (trace (afterDelay type h i w)) = written (trace w)"
  using assms by (simp_all add: afterDelay_def frame)

lemma total_assign_progress:
  "IndexingState.total (assign st (noPatch\<lparr>IndexingStatePatch.progress := Some a,
      IndexingStatePatch.lastHeartbeat := Some b\<rparr>)) = IndexingState.total st"
  "IndexingState.isIndexing (assign st (noPatch\<lparr>IndexingStatePatch.progress := Some a,
      IndexingStatePatch.lastHeartbeat := Some b\<rparr>)) = IndexingState.isIndexing st"
  "IndexingState.progress (assign st (noPatch\<lparr>IndexingStatePatch.progress := Some a,
      IndexingStatePatch.lastHeartbeat := Some b\<rparr>)) = a"
  "IndexingState.lastIndexed (assign st (noPatch\<lparr>IndexingStatePatch.progress := Some a,
      IndexingStatePatch.lastHeartbeat := Some b\<rparr>)) = IndexingState.lastIndexed st"
  by (simp_all add: assign_def noPatch_def)

text \<open>The loop keeps the file's writability and every collection's total.\<close>

lemma indexAllOf_keeps:
  assumes nt: "nonThrowing op"
  shows "writable (snd (indexAllOf type h (Some (progressWrapper type op)) files i n w)) = writable w
       \<and> IndexingState.total (getIndexingState ty
            (db (snd (indexAllOf type h (Some (progressWrapper type op)) files i n w))))
          = IndexingState.total (getIndexingState ty (db w))"
proof (rule indexAllOf_wrapper_induct [where op = op and P = "\<lambda>i n w r.
          writable (snd r) = writable w
        \<and> IndexingState.total (getIndexingState ty (db (snd r)))
            = IndexingState.total (getIndexingState ty (db w))"], goal_cases)
  case 1
  show ?case by (rule nt)
next
  case (2 i n w)
  then show ?case by simp
next
  case (3 i n w)
  then show ?case
    by (simp add: indexChunk_fields frame total_assign_progress)
qed

text \<open>When nothing interrupts the loop, it saves exactly after the chunks whose
  running count is a multiple of \<open>saveEvery\<close>, and it ends with the count of all
  documents as progress.\<close>

lemma indexAllOf_quiet:
  assumes nt: "nonThrowing op" and q: "quiet h"
  shows "\<not> cancelIndexing w \<longrightarrow>
         savedProgress type (trace (snd (indexAllOf type h (Some (progressWrapper type op)) files i n w)))
           = savedProgress type (trace w)
             @ filter (\<lambda>k. k mod saveEvery (INDEXING_PARAMS type) = 0)
                 (chunkEnds (chunkSize (INDEXING_PARAMS type)) (length files) i n)
       \<and> IndexingState.progress (getIndexingState type
            (db (snd (indexAllOf type h (Some (progressWrapper type op)) files i n w))))
          = (if i < length files then n + int (length files - i)
             else IndexingState.progress (getIndexingState type (db w)))
       \<and> \<not> cancelIndexing (snd (indexAllOf type h (Some (progressWrapper type op)) files i n w))"
proof (rule indexAllOf_wrapper_induct [where op = op and P = "\<lambda>i n w r.
         \<not> cancelIndexing w \<longrightarrow>
         savedProgress type (trace (snd r))
           = savedProgress type (trace w)
             @ filter (\<lambda>k. k mod saveEvery (INDEXING_PARAMS type) = 0)
                 (chunkEnds (chunkSize (INDEXING_PARAMS type)) (length files) i n)
       \<and> IndexingState.progress (getIndexingState type (db (snd r)))
          = (if i < length files then n + int (length files - i)
             else IndexingState.progress (getIndexingState type (db w)))
       \<and> \<not> cancelIndexing (snd r)"], goal_cases)
  case 1
  show ?case by (rule nt)
next
  case (2 i n w)
  then show ?case
    by (auto simp: chunkEnds.simps [of _ _ i])
next
  case (3 i n w)
  let ?r = "indexChunk type h (Some (progressWrapper type op)) files i n w"
  let ?cs = "chunkSize (INDEXING_PARAMS type)"
  from q have qi: "interrupts h i = []" by (simp add: quiet_def)
  have n': "fst (snd ?r) = n + int (min ?cs (length files - i))"
    by (simp add: indexChunk_fields min.commute)
  have c': "\<not> cancelIndexing (snd (snd ?r))"
    using 3(2) by (simp add: indexChunk_fields afterDelay_quiet [OF qi])
  have sp: "savedProgress type (trace (snd (snd ?r))) =
        savedProgress type (trace w)
        @ (if fst (snd ?r) mod saveEvery (INDEXING_PARAMS type) = 0 then [fst (snd ?r)] else [])"
    unfolding savedProgress_map
    using indexChunk_fields(7) [OF nt, of type type h files i n w]
    by (simp add: indexChunk_fields afterDelay_quiet [OF qi] total_assign_progress)
  have ce: "chunkEnds ?cs (length files) i n
            = fst (snd ?r) # chunkEnds ?cs (length files) (i + ?cs) (fst (snd ?r))"
    using 3(1) chunkSize_pos [of type] by (subst chunkEnds.simps) (simp add: n')
  have fin: "(if i + ?cs < length files then fst (snd ?r) + int (length files - (i + ?cs))
              else IndexingState.progress (getIndexingState type (db (snd (snd ?r)))))
             = n + int (length files - i)"
    using 3(1) by (auto simp: n' min_def indexChunk_fields total_assign_progress)
  from 3(3) c' 3(1) show ?case
    by (simp add: sp ce fin)
qed

lemma heldWithin_atMostOne:
  assumes s: "single F" and h: "heldWithin F d"
  shows "atMostOneIndexing d"
proof -
  have "\<not> (IndexingState.isIndexing (getIndexingState a d)
            \<and> IndexingState.isIndexing (getIndexingState b d))" if "a \<noteq> b" for a b
  proof
    assume "IndexingState.isIndexing (getIndexingState a d)
            \<and> IndexingState.isIndexing (getIndexingState b d)"
    then have "F a" "F b"
      using h by (simp_all add: heldWithin_def)
    with s have "a = b"
      by (simp add: single_def)
    with that show False ..
  qed
  from this [of Titles Headings] this [of Titles Content] this [of Headings Content]
  show ?thesis
    by (simp add: atMostOneIndexing_def)
qed

lemma atMostOne_single:
  assumes "atMostOneIndexing d"
  shows "single (\<lambda>ty. IndexingState.isIndexing (getIndexingState ty d))"
  unfolding single_def
proof (intro allI impI)
  fix a b
  assume "IndexingState.isIndexing (getIndexingState a d)"
    and "IndexingState.isIndexing (getIndexingState b d)"
  with assms show "a = b"
    by (cases a; cases b) (simp_all add: atMostOneIndexing_def)
qed

lemma atMostOneIndexing_cong:
  "(\<And>ty. getIndexingState ty d' = getIndexingState ty d) \<Longrightarrow>
   atMostOneIndexing d' = atMostOneIndexing d"
  by (simp add: atMostOneIndexing_def)

lemma heldWithin_cong:
  "(\<And>ty. getIndexingState ty d' = getIndexingState ty d) \<Longrightarrow> heldWithin F d' = heldWithin F d"
  by (simp add: heldWithin_def)

lemma lockBound_invariant: "single F \<Longrightarrow> lockBound F w \<Longrightarrow> lockInvariant w"
  by (simp add: lockBound_def lockInvariant_def heldWithin_atMostOne)

lemma invariant_lockBound:
  "lockInvariant w \<Longrightarrow> lockBound (\<lambda>ty. IndexingState.isIndexing (getIndexingState ty (db w))) w"
  by (simp add: lockBound_def lockInvariant_def heldWithin_def)

text \<open>Steps that leave the indexing states, the written envelopes and the file
  alone keep the bound.\<close>

lemma lockBound_frame:
  assumes "\<And>ty. getIndexingState ty (db w') = getIndexingState ty (db w)"
    and "written (trace w') = written (trace w)" and "disk w' = disk w"
  shows "lockBound F w' = lockBound F w"
  using assms by (simp add: lockBound_def heldWithin_cong [of "db w'" "db w"])

lemma lockBound_save:
  assumes "single F" "lockBound F w"
  shows "lockBound F (save w)"
proof -
  have "heldWithin F ((db w)\<lparr>lastUpdate := clock w\<rparr>)"
    using assms(2) by (simp add: lockBound_def heldWithin_def frame)
  then show ?thesis
    using assms heldWithin_atMostOne [OF assms(1)]
    by (simp add: lockBound_def frame)
qed

lemma lockBound_release:
  assumes "lockBound F w"
    and "IndexingStatePatch.isIndexing p = None \<or> IndexingStatePatch.isIndexing p = Some False"
  shows "lockBound F (w\<lparr>db := setIndexingState ty p (db w)\<rparr>)"
  using assms
  by (auto simp: lockBound_def heldWithin_def frame assign_def split: option.splits)

lemma lockBound_trigger: "lockBound F (triggerIndexingUpdate ty a b w) = lockBound F w"
  by (rule lockBound_frame) (simp_all add: frame)

lemma lockBound_emit:
  "written [e] = [] \<Longrightarrow> lockBound F (emit e w) = lockBound F w"
  by (rule lockBound_frame) (simp_all add: frame)

lemma lockBound_indexOne: "lockBound F (indexOne type h file w) = lockBound F w"
  by (rule lockBound_frame) (simp_all add: frame)

lemma lockBound_chunk_docs:
  "lockBound F (foldl (\<lambda>acc file. indexOne type h file acc) w fs) = lockBound F w"
  by (rule lockBound_frame) (simp_all add: frame)

lemma lockBound_wrapper: "lockBound F (snd (progressWrapper ty op a b w)) = lockBound F w"
  by (rule lockBound_frame) (simp_all add: frame)

lemma lockBound_cancelCleanup:
  assumes "single F" "lockBound F w"
  shows "lockBound F (cancelCleanup w)"
proof -
  have "lockBound F (w\<lparr>db := setAllIndexingFalse (db w)\<rparr>)"
    using assms(2) by (simp add: lockBound_def heldWithin_def frame)
  then show ?thesis
    unfolding cancelCleanup_def using assms(1) by (rule lockBound_save [rotated])
qed

lemma lockBound_cancelRequest: "lockBound F (cancelBackgroundIndexing w) = lockBound F w"
  by (rule lockBound_frame) (simp_all add: frame)

lemma lockBound_run_async:
  "single F \<Longrightarrow> lockBound F w \<Longrightarrow> lockBound F (run_async evs w)"
  by (induction evs w rule: run_async.induct)
     (simp_all add: lockBound_cancelRequest lockBound_cancelCleanup)

lemma lockBound_afterDelay:
  assumes "single F" "lockBound F w"
  shows "lockBound F (afterDelay type h i w)"
proof -
  have "lockBound F (w\<lparr>clock := clock w + delayMs (INDEXING_PARAMS type)\<rparr>)"
    using assms(2) by (simp add: lockBound_def)
  then have "lockBound F (emit (Delay (delayMs (INDEXING_PARAMS type)))
               (w\<lparr>clock := clock w + delayMs (INDEXING_PARAMS type)\<rparr>))"
    by (simp add: lockBound_emit)
  with assms(1) show ?thesis
    unfolding afterDelay_def by (rule lockBound_run_async)
qed

lemma lockBound_indexChunk:
  assumes s: "single F" and b: "lockBound F w"
  shows "lockBound F (snd (snd (indexChunk type h (Some (progressWrapper type op)) files i n w)))"
proof -
  let ?wa = "afterDelay type h i w"
  let ?chunk = "take (chunkSize (INDEXING_PARAMS type)) (drop i files)"
  let ?w2 = "foldl (\<lambda>acc file. indexOne type h file acc) ?wa ?chunk"
  let ?n' = "n + int (length ?chunk)"
  let ?w3 = "?w2\<lparr>db := setIndexingState type
                     (noPatch\<lparr>IndexingStatePatch.progress := Some ?n',
                              IndexingStatePatch.lastHeartbeat := Some (clock ?w2)\<rparr>) (db ?w2)\<rparr>"
  let ?w4 = "snd (progressWrapper type op ?n' (int (length files)) ?w3)"
  have "lockBound F ?w2"
    using lockBound_afterDelay [OF s b] by (simp add: lockBound_chunk_docs)
  then have "lockBound F ?w3"
    by (rule lockBound_release) (simp add: noPatch_def)
  then have 4: "lockBound F ?w4"
    by (simp add: lockBound_wrapper)
  then have "lockBound F (triggerIndexingUpdate type (Some ?n') (Some (int (length files))) (save ?w4))"
    using s by (simp add: lockBound_trigger lockBound_save)
  with 4 show ?thesis
    unfolding indexChunk_unfold Let_def by simp
qed

lemma indexAllOf_induct_all [case_names stop threw step]:
  assumes stop: "\<And>i n w. \<not> i < length files \<or> cancelIndexing w \<Longrightarrow> P i n w (Returned, w)"
    and threw: "\<And>i n w. i < length files \<Longrightarrow> \<not> cancelIndexing w \<Longrightarrow>
        fst (indexChunk type h cb files i n w) = Threw \<Longrightarrow>
        P i n w (Threw, snd (snd (indexChunk type h cb files i n w)))"
    and step: "\<And>i n w. i < length files \<Longrightarrow> \<not> cancelIndexing w \<Longrightarrow>
        fst (indexChunk type h cb files i n w) = Returned \<Longrightarrow>
        P (i + chunkSize (INDEXING_PARAMS type))
          (fst (snd (indexChunk type h cb files i n w)))
          (snd (snd (indexChunk type h cb files i n w)))
          (indexAllOf type h cb files
             (i + chunkSize (INDEXING_PARAMS type))
             (fst (snd (indexChunk type h cb files i n w)))
             (snd (snd (indexChunk type h cb files i n w)))) \<Longrightarrow>
        P i n w
          (indexAllOf type h cb files
             (i + chunkSize (INDEXING_PARAMS type))
             (fst (snd (indexChunk type h cb files i n w)))
             (snd (snd (indexChunk type h cb files i n w))))"
  shows "P i n w (indexAllOf type h cb files i n w)"
proof (induction "length files - i" arbitrary: i n w rule: less_induct)
  case less
  let ?r = "indexChunk type h cb files i n w"
  consider (stop) "\<not> i < length files \<or> cancelIndexing w"
    | (threw) "i < length files" "\<not> cancelIndexing w" "fst ?r = Threw"
    | (step) "i < length files" "\<not> cancelIndexing w" "fst ?r = Returned"
    by (cases "fst ?r") auto
  then show ?case
  proof cases
    case stop
    then have "indexAllOf type h cb files i n w = (Returned, w)"
      using indexAllOf_done [of i files] indexAllOf_cancelled [of w] by blast
    with assms(1) [OF stop] show ?thesis by (simp only:)
  next
    case threw
    then have "indexAllOf type h cb files i n w = (Threw, snd (snd ?r))"
      by (rule indexAllOf_threw)
    with assms(2) [OF threw] show ?thesis by (simp only:)
  next
    case step
    then have eq: "indexAllOf type h cb files i n w =
        indexAllOf type h cb files (i + chunkSize (INDEXING_PARAMS type)) (fst (snd ?r)) (snd (snd ?r))"
      by (rule indexAllOf_step)
    have "length files - (i + chunkSize (INDEXING_PARAMS type)) < length files - i"
      using step(1) chunkSize_pos [of type] by linarith
    then have "P (i + chunkSize (INDEXING_PARAMS type)) (fst (snd ?r)) (snd (snd ?r))
            (indexAllOf type h cb files
               (i + chunkSize (INDEXING_PARAMS type)) (fst (snd ?r)) (snd (snd ?r)))"
      by (rule less.hyps)
    from assms(3) [OF step this] show ?thesis unfolding eq .
  qed
qed

lemma lockBound_indexAllOf:
  assumes s: "single F"
  shows "lockBound F w \<longrightarrow>
         lockBound F (snd (indexAllOf type h (Some (progressWrapper type op)) files i n w))"
proof (rule indexAllOf_induct_all [where P = "\<lambda>i n w r. lockBound F w \<longrightarrow> lockBound F (snd r)"],
       goal_cases)
  case (1 i n w)
  then show ?case by simp
next
  case (2 i n w)
  then show ?case by (simp add: lockBound_indexChunk [OF s])
next
  case (3 i n w)
  then show ?case by (simp add: lockBound_indexChunk [OF s])
qed

lemma indexSpecificType_unfold:
  "indexSpecificType type h op w =
     (if isAnyIndexing (db w) then (Returned, w)
      else (let r = indexAllOf type h (Some (progressWrapper type op)) (markdownFiles h) 0 0
                      (passStart type h w)
            in if fst r = Returned then (Returned, passComplete type (snd r))
               else (Threw, passFail type (snd r))))"
  by (cases type)
     (simp_all add: indexSpecificType_def indexAllTitles_def indexAllHeadings_def
        indexAllContent_def passStart_def passComplete_def passFail_def Let_def
        split: prod.splits completion.splits)

lemma single_eq: "single (\<lambda>t. t = type)"
  by (simp add: single_def)

lemma idle_not_indexing:
  "\<not> isAnyIndexing d \<Longrightarrow> \<not> IndexingState.isIndexing (getIndexingState ty d)"
  by (cases ty) (simp_all add: isAnyIndexing_def)

lemma lockBound_passStart:
  assumes "\<not> isAnyIndexing (db w)" "lockInvariant w"
  shows "lockBound (\<lambda>t. t = type) (passStart type h w)"
proof -
  have "lockBound (\<lambda>t. t = type)
          (w\<lparr>cancelIndexing := False,
             db := setIndexingState type
                     \<lparr>IndexingStatePatch.isIndexing = Some True, progress = Some 0,
                      total = Some (int (length (markdownFiles h))), lastIndexed = None,
                      lastHeartbeat = Some (clock w)\<rparr> (db w)\<rparr>)"
    using assms(2) idle_not_indexing [OF assms(1)]
    by (simp add: lockBound_def lockInvariant_def heldWithin_def frame)
  then show ?thesis
    unfolding passStart_def by (rule lockBound_save [OF single_eq])
qed

lemma lockBound_passComplete:
  assumes "single F" "lockBound F w"
  shows "lockBound F (passComplete type w)"
proof -
  have "lockBound F (w\<lparr>db := setIndexingState type
                           (noPatch\<lparr>IndexingStatePatch.isIndexing := Some False,
                                    IndexingStatePatch.lastIndexed := Some (clock w)\<rparr>) (db w)\<rparr>)"
    using assms(2) by (rule lockBound_release) (simp add: noPatch_def)
  then have "lockBound F (emit SettingsChanged (triggerIndexingUpdate type None None
               (save (w\<lparr>db := setIndexingState type
                           (noPatch\<lparr>IndexingStatePatch.isIndexing := Some False,
                                    IndexingStatePatch.lastIndexed := Some (clock w)\<rparr>) (db w)\<rparr>))))"
    using assms(1) by (simp add: lockBound_emit lockBound_trigger lockBound_save)
  then show ?thesis
    unfolding passComplete_def Let_def by (rule lockBound_release) (simp add: noPatch_def)
qed

lemma lockBound_passFail:
  assumes "lockBound F w"
  shows "lockBound F (passFail type w)"
proof -
  have "lockBound F (w\<lparr>db := setIndexingState type
                   (noPatch\<lparr>IndexingStatePatch.isIndexing := Some False,
                            IndexingStatePatch.progress := Some 0,
                            IndexingStatePatch.total := Some 0\<rparr>) (db w)\<rparr>)"
    using assms by (rule lockBound_release) (simp add: noPatch_def)
  then show ?thesis
    by (simp add: passFail_def lockBound_trigger)
qed

lemma lockInvariant_indexSpecificType:
  assumes "lockInvariant w"
  shows "lockInvariant (snd (indexSpecificType type h op w))"
proof (cases "isAnyIndexing (db w)")
  case True
  with assms show ?thesis by (simp add: indexSpecificType_unfold)
next
  case False
  let ?r = "indexAllOf type h (Some (progressWrapper type op)) (markdownFiles h) 0 0
              (passStart type h w)"
  have "lockBound (\<lambda>t. t = type) (snd ?r)"
    using lockBound_indexAllOf [OF single_eq] lockBound_passStart [OF False assms] by blast
  then have "lockBound (\<lambda>t. t = type) (passComplete type (snd ?r))"
    and "lockBound (\<lambda>t. t = type) (passFail type (snd ?r))"
    by (simp_all add: lockBound_passComplete [OF single_eq] lockBound_passFail)
  then show ?thesis
    using False by (simp add: indexSpecificType_unfold Let_def lockBound_invariant [OF single_eq])
qed

lemma lockInvariant_frame:
  assumes "\<And>ty. getIndexingState ty (db w') = getIndexingState ty (db w)"
    and "written (trace w') = written (trace w)" and "disk w' = disk w"
  shows "lockInvariant w' = lockInvariant w"
  using assms by (simp add: lockInvariant_def atMostOneIndexing_cong [of "db w'" "db w"])

lemma lockInvariant_via_bound:
  assumes inv: "lockInvariant w"
    and step: "\<And>F. single F \<Longrightarrow> lockBound F w \<Longrightarrow> lockBound F w'"
  shows "lockInvariant w'"
proof -
  let ?F = "\<lambda>ty. IndexingState.isIndexing (getIndexingState ty (db w))"
  have s: "single ?F"
    using inv by (simp add: lockInvariant_def atMostOne_single)
  from step [OF s invariant_lockBound [OF inv]] show ?thesis
    by (rule lockBound_invariant [OF s])
qed

lemma lockInvariant_save: "lockInvariant w \<Longrightarrow> lockInvariant (save w)"
  by (erule lockInvariant_via_bound) (rule lockBound_save)

lemma lockInvariant_indexNote: "lockInvariant w \<Longrightarrow> lockInvariant (indexNote h file s w)"
proof -
  assume inv: "lockInvariant w"
  let ?w1 = "if aiIndexTitles (settings h) then indexTitle h file w else w"
  let ?w2 = "if aiIndexHeadings (settings h) then indexHeadings h file ?w1 else ?w1"
  let ?w3 = "if aiIndexContent (settings h) then indexContent h file ?w2 else ?w2"
  have "lockInvariant ?w3 = lockInvariant w"
    by (rule lockInvariant_frame) (simp_all add: frame)
  with inv show ?thesis
    by (simp add: indexNote_def Let_def lockInvariant_save)
qed

lemma lockInvariant_updateNoteIfNeeded:
  "lockInvariant w \<Longrightarrow> lockInvariant (updateNoteIfNeeded h file w)"
  by (simp add: updateNoteIfNeeded_def Let_def lockInvariant_indexNote)

lemma lockInvariant_removeNote: "lockInvariant w \<Longrightarrow> lockInvariant (removeNote p w)"
proof -
  assume inv: "lockInvariant w"
  let ?w1 = "case getTitleEmbedding p (db w) of None \<Rightarrow> w
             | Some e \<Rightarrow> w\<lparr>db := removeTitleEmbedding p (db w)\<rparr>"
  let ?w2 = "case getHeadingEmbedding p (db ?w1) of None \<Rightarrow> ?w1
             | Some e \<Rightarrow> ?w1\<lparr>db := removeHeadingEmbedding p (db ?w1)\<rparr>"
  let ?w3 = "case getContentEmbedding p (db ?w2) of None \<Rightarrow> ?w2
             | Some e \<Rightarrow> ?w2\<lparr>db := removeContentEmbedding p (db ?w2)\<rparr>"
  have "lockInvariant ?w3 = lockInvariant w"
    by (rule lockInvariant_frame) (simp_all add: frame split: option.splits)
  with inv have 3: "lockInvariant ?w3" by simp
  have "removeNote p w = ?w3 \<or> removeNote p w = save ?w3"
    by (simp add: removeNote_def Let_def split: option.splits)
  then show ?thesis
  proof
    assume "removeNote p w = ?w3"
    with 3 show ?thesis by (simp only:)
  next
    assume "removeNote p w = save ?w3"
    with lockInvariant_save [OF 3] show ?thesis by (simp only:)
  qed
qed

lemma lockInvariant_cancel:
  "lockInvariant w \<Longrightarrow> lockInvariant (cancelBackgroundIndexing w)"
  "lockInvariant w \<Longrightarrow> lockInvariant (cancelCleanup w)"
  by (erule lockInvariant_via_bound, simp add: lockBound_cancelRequest)
     (erule lockInvariant_via_bound, rule lockBound_cancelCleanup)

lemma lockInvariant_reset: "lockInvariant w \<Longrightarrow> lockInvariant (reset w)"
  unfolding reset_def
  by (rule lockInvariant_save)
     (simp add: lockInvariant_def atMostOneIndexing_def getIndexingState_def
        createEmptyDatabase_def createEmptyState_def split: IndexType.splits)

lemma isIndexing_recoverStaleLock:
  "IndexingState.isIndexing (recoverStaleLock now st) \<Longrightarrow> IndexingState.isIndexing st"
  by (simp add: recoverStaleLock_def Let_def split: if_splits)

lemma lockInvariant_load: "lockInvariant w \<Longrightarrow> lockInvariant (load w)"
proof (cases "disk w")
  case Missing
  then show "lockInvariant w \<Longrightarrow> lockInvariant (load w)"
    by (simp add: load_def lockInvariant_reset)
next
  case Unreadable
  then show "lockInvariant w \<Longrightarrow> lockInvariant (load w)"
    by (simp add: load_def)
next
  case (Stored e)
  assume inv: "lockInvariant w"
  show "lockInvariant (load w)"
  proof (cases "version e = ''2.0.0''")
    case True
    have "atMostOneIndexing e"
      using inv Stored by (simp add: lockInvariant_def)
    then have "atMostOneIndexing (db (load w))"
      unfolding atMostOneIndexing_def getIndexingState_load [OF Stored True]
      using isIndexing_recoverStaleLock by blast
    moreover have "trace (load w) = trace w" "disk (load w) = disk w"
      using Stored True by (simp_all add: load_def Let_def)
    ultimately show ?thesis
      using inv by (simp add: lockInvariant_def)
  next
    case False
    with Stored inv show ?thesis
      by (simp add: load_def lockInvariant_reset)
  qed
qed

lemma passStart_fields:
  "getIndexingState ty (db (passStart type h w)) =
     (if ty = type
      then (getIndexingState ty (db w))
             \<lparr>IndexingState.isIndexing := True, IndexingState.progress := 0,
              IndexingState.total := int (length (markdownFiles h)),
              IndexingState.lastHeartbeat := Some (clock w)\<rparr>
      else getIndexingState ty (db w))"
  "writable (passStart type h w) = writable w" "clock (passStart type h w) = clock w"
  "\<not> cancelIndexing (passStart type h w)"
  "savedProgress type (trace (passStart type h w)) = savedProgress type (trace w) @ [0]"
  by (simp_all add: passStart_def frame assign_def savedProgress_def)

lemma passComplete_fields:
  "getIndexingState type (db (passComplete type w4)) =
     (getIndexingState type (db w4))
       \<lparr>IndexingState.isIndexing := False, IndexingState.lastIndexed := clock w4,
        IndexingState.progress := 0, IndexingState.total := 0\<rparr>"
  "clock (passComplete type w4) = clock w4"
  "cancelIndexing (passComplete type w4) = cancelIndexing w4"
  "savedProgress type (trace (passComplete type w4))
     = savedProgress type (trace w4) @ [IndexingState.progress (getIndexingState type (db w4))]"
  by (simp_all add: passComplete_def Let_def frame assign_def noPatch_def savedProgress_def)

lemma passComplete_persisted:
  assumes "writable w4"
  shows "\<exists>e. disk (passComplete type w4) = Stored e
           \<and> getIndexingState type e
               = (getIndexingState type (db w4))
                   \<lparr>IndexingState.isIndexing := False, IndexingState.lastIndexed := clock w4\<rparr>
           \<and> trace (passComplete type w4)
               = trace w4 @ [Written e,
                   IndexingUpdate type False
                     (IndexingState.progress (getIndexingState type (db w4)))
                     (IndexingState.total (getIndexingState type (db w4))),
                   SettingsChanged]"
  using assms
  by (simp add: passComplete_def Let_def frame assign_def noPatch_def triggerIndexingUpdate_def)

text \<open>Requests and clean-up timers that arrive during a delay.\<close>

lemma cancelBackgroundIndexing_idle:
  "\<not> isAnyIndexing (db w) \<Longrightarrow> cancelBackgroundIndexing w = w"
  by (simp add: cancelBackgroundIndexing_def)

lemma isAnyIndexing_cancelCleanup: "\<not> isAnyIndexing (db (cancelCleanup w))"
  by (simp add: isAnyIndexing_def frame)

lemma run_async_cancelled:
  "cancelIndexing w \<Longrightarrow> cancelIndexing (run_async evs w)"
  by (induction evs w rule: run_async.induct)
     (simp_all add: frame cancelBackgroundIndexing_def emit_def)

lemma run_async_idle:
  "\<not> isAnyIndexing (db w) \<Longrightarrow>
   \<not> isAnyIndexing (db (run_async evs w)) \<and> cancelIndexing (run_async evs w) = cancelIndexing w"
  by (induction evs w rule: run_async.induct)
     (simp_all add: cancelBackgroundIndexing_idle isAnyIndexing_cancelCleanup frame)

lemma afterDelay_request:
  assumes "interrupts h i = CancelRequested # rest" "isAnyIndexing (db w)"
  shows "cancelIndexing (afterDelay type h i w)"
  using assms
  by (simp add: afterDelay_def run_async_cancelled cancelBackgroundIndexing_def frame emit_def)

lemma afterDelay_idle:
  assumes "\<not> isAnyIndexing (db w)"
  shows "\<not> isAnyIndexing (db (afterDelay type h i w))"
    "cancelIndexing (afterDelay type h i w) = cancelIndexing w"
  using run_async_idle [of "emit (Delay (delayMs (INDEXING_PARAMS type)))
          (w\<lparr>clock := clock w + delayMs (INDEXING_PARAMS type)\<rparr>)" "interrupts h i"] assms
  by (simp_all add: afterDelay_def frame)

lemma afterDelay_stale:
  assumes "interrupts h i = CleanupTimerFires # rest"
  shows "\<not> isAnyIndexing (db (afterDelay type h i w))"
    "cancelIndexing (afterDelay type h i w) = cancelIndexing w"
  using run_async_idle [OF isAnyIndexing_cancelCleanup, of rest
          "emit (Delay (delayMs (INDEXING_PARAMS type)))
             (w\<lparr>clock := clock w + delayMs (INDEXING_PARAMS type)\<rparr>)"] assms
  by (simp_all add: afterDelay_def frame)

lemma isAnyIndexing_indexChunk:
  "isAnyIndexing (db (snd (snd (indexChunk type h (Some (progressWrapper type op)) files i n w))))
   = isAnyIndexing (db (afterDelay type h i w))"
  by (simp add: isAnyIndexing_def indexChunk_fields total_assign_progress)

text \<open>Once no collection is marked, no request stops the loop: it handles every
  remaining document.\<close>

lemma indexAllOf_idle:
  assumes nt: "nonThrowing op"
  shows "\<not> isAnyIndexing (db w) \<and> \<not> cancelIndexing w \<longrightarrow>
         IndexingState.progress (getIndexingState type
            (db (snd (indexAllOf type h (Some (progressWrapper type op)) files i n w))))
          = (if i < length files then n + int (length files - i)
             else IndexingState.progress (getIndexingState type (db w)))
       \<and> \<not> cancelIndexing (snd (indexAllOf type h (Some (progressWrapper type op)) files i n w))"
proof (rule indexAllOf_wrapper_induct [where op = op and P = "\<lambda>i n w r.
         \<not> isAnyIndexing (db w) \<and> \<not> cancelIndexing w \<longrightarrow>
         IndexingState.progress (getIndexingState type (db (snd r)))
          = (if i < length files then n + int (length files - i)
             else IndexingState.progress (getIndexingState type (db w)))
       \<and> \<not> cancelIndexing (snd r)"], goal_cases)
  case 1
  show ?case by (rule nt)
next
  case (2 i n w)
  then show ?case by auto
next
  case (3 i n w)
  let ?r = "indexChunk type h (Some (progressWrapper type op)) files i n w"
  let ?cs = "chunkSize (INDEXING_PARAMS type)"
  show ?case
  proof (intro impI)
    assume a: "\<not> isAnyIndexing (db w) \<and> \<not> cancelIndexing w"
    then have idle': "\<not> isAnyIndexing (db (snd (snd ?r)))"
      by (simp add: isAnyIndexing_indexChunk afterDelay_idle)
    have c': "\<not> cancelIndexing (snd (snd ?r))"
      using a by (simp add: indexChunk_fields afterDelay_idle)
    have n': "fst (snd ?r) = n + int (min ?cs (length files - i))"
      by (simp add: indexChunk_fields min.commute)
    have fin: "(if i + ?cs < length files then fst (snd ?r) + int (length files - (i + ?cs))
                else IndexingState.progress (getIndexingState type (db (snd (snd ?r)))))
               = n + int (length files - i)"
      using 3(1) by (auto simp: n' min_def indexChunk_fields total_assign_progress)
    from 3(3) idle' c' 3(1) show "IndexingState.progress (getIndexingState type
            (db (snd (indexAllOf type h (Some (progressWrapper type op)) files
               (i + ?cs) (fst (snd ?r)) (snd (snd ?r))))))
          = (if i < length files then n + int (length files - i)
             else IndexingState.progress (getIndexingState type (db w)))
       \<and> \<not> cancelIndexing (snd (indexAllOf type h (Some (progressWrapper type op)) files
               (i + ?cs) (fst (snd ?r)) (snd (snd ?r))))"
      by (simp add: fin)
  qed
qed

text \<open>A clean-up timer that fires before any request clears the marks, and the loop
  goes on to the end whatever arrives later.\<close>

lemma indexAllOf_stale:
  assumes nt: "nonThrowing op"
    and at: "interrupts h i = CleanupTimerFires # rest"
    and i: "i < length files" and c: "\<not> cancelIndexing w"
  shows "IndexingState.progress (getIndexingState type
            (db (snd (indexAllOf type h (Some (progressWrapper type op)) files i n w))))
          = n + int (length files - i)
       \<and> \<not> cancelIndexing (snd (indexAllOf type h (Some (progressWrapper type op)) files i n w))"
proof -
  let ?r = "indexChunk type h (Some (progressWrapper type op)) files i n w"
  let ?cs = "chunkSize (INDEXING_PARAMS type)"
  have ret: "fst ?r = Returned"
    using nt by (rule indexChunk_fields(6))
  have eq: "indexAllOf type h (Some (progressWrapper type op)) files i n w
        = indexAllOf type h (Some (progressWrapper type op)) files (i + ?cs) (fst (snd ?r)) (snd (snd ?r))"
    using i c ret by (rule indexAllOf_step)
  have idle': "\<not> isAnyIndexing (db (snd (snd ?r)))"
    by (simp add: isAnyIndexing_indexChunk afterDelay_stale [OF at])
  have c': "\<not> cancelIndexing (snd (snd ?r))"
    using c by (simp add: indexChunk_fields afterDelay_stale [OF at])
  have n': "fst (snd ?r) = n + int (min ?cs (length files - i))"
    by (simp add: indexChunk_fields min.commute)
  have fin: "(if i + ?cs < length files then fst (snd ?r) + int (length files - (i + ?cs))
              else IndexingState.progress (getIndexingState type (db (snd (snd ?r)))))
             = n + int (length files - i)"
    using i by (auto simp: n' min_def indexChunk_fields total_assign_progress)
  from indexAllOf_idle [OF nt, of "snd (snd ?r)" type h files "i + ?cs" "fst (snd ?r)"] idle' c'
  show ?thesis unfolding eq by (simp add: fin)
qed

text \<open>A request that arrives while the last chunk waits stops nothing: the loop has
  no poll left.\<close>

lemma indexAllOf_last_chunk:
  assumes nt: "nonThrowing op"
    and i: "i < length files" "length files \<le> i + chunkSize (INDEXING_PARAMS type)"
    and c: "\<not> cancelIndexing w"
  shows "IndexingState.progress (getIndexingState type
            (db (snd (indexAllOf type h (Some (progressWrapper type op)) files i n w))))
          = n + int (length files - i)"
proof -
  let ?r = "indexChunk type h (Some (progressWrapper type op)) files i n w"
  let ?cs = "chunkSize (INDEXING_PARAMS type)"
  have ret: "fst ?r = Returned"
    using nt by (rule indexChunk_fields(6))
  have "indexAllOf type h (Some (progressWrapper type op)) files i n w
        = indexAllOf type h (Some (progressWrapper type op)) files (i + ?cs) (fst (snd ?r)) (snd (snd ?r))"
    using i(1) c ret by (rule indexAllOf_step)
  also have "\<dots> = (Returned, snd (snd ?r))"
    using i(2) by (intro indexAllOf_done) simp
  finally show ?thesis
    using i by (simp add: indexChunk_fields total_assign_progress min_def)
qed


lemma indexAllOf_last_request:
  assumes nt: "nonThrowing op"
    and before: "\<forall>j<k. interrupts h (i + j * chunkSize (INDEXING_PARAMS type)) = []"
    and last: "i + k * chunkSize (INDEXING_PARAMS type) < length files"
      "length files \<le> i + (k + 1) * chunkSize (INDEXING_PARAMS type)"
    and c: "\<not> cancelIndexing w"
  shows "IndexingState.progress (getIndexingState type
            (db (snd (indexAllOf type h (Some (progressWrapper type op)) files i n w))))
          = n + int (length files - i)"
  using before last c
proof (induction k arbitrary: i n w)
  case 0
  then show ?case
    by (intro indexAllOf_last_chunk [OF nt]) simp_all
next
  case (Suc k)
  let ?cs = "chunkSize (INDEXING_PARAMS type)"
  let ?r = "indexChunk type h (Some (progressWrapper type op)) files i n w"
  from Suc.prems have i: "i < length files" "i + ?cs < length files" and q: "interrupts h i = []"
    by auto
  have ret: "fst ?r = Returned"
    using nt by (rule indexChunk_fields(6))
  have c': "\<not> cancelIndexing (snd (snd ?r))"
    using Suc.prems(4) by (simp add: indexChunk_fields afterDelay_quiet [OF q])
  have len: "min (length files - i) ?cs = ?cs"
    using i(2) by (auto simp: min_def)
  have n': "fst (snd ?r) = n + int ?cs"
    by (simp add: indexChunk_fields len)
  have b': "\<forall>j<k. interrupts h (i + ?cs + j * ?cs) = []"
  proof (intro allI impI)
    fix j assume "j < k"
    then have "Suc j < Suc k" by simp
    with Suc.prems(1) have "interrupts h (i + Suc j * ?cs) = []"
      by blast
    then show "interrupts h (i + ?cs + j * ?cs) = []"
      by (simp add: add.assoc)
  qed
  have l': "i + ?cs + k * ?cs < length files" "length files \<le> i + ?cs + (k + 1) * ?cs"
    using Suc.prems(2,3) by (simp_all add: add.assoc)
  have eq: "indexAllOf type h (Some (progressWrapper type op)) files i n w
        = indexAllOf type h (Some (progressWrapper type op)) files (i + ?cs) (fst (snd ?r)) (snd (snd ?r))"
    using i(1) Suc.prems(4) ret by (rule indexAllOf_step)
  from Suc.IH [OF b' l' c', of "fst (snd ?r)"] i(2) show ?case
    unfolding eq n' by simp
qed

text \<open>A request that is the first thing to arrive, while the \<open>k\<close>-th chunk from index
  \<open>i\<close> waits and with chunks left after it: the loop processes that chunk and returns
  at the next poll, whatever follows the request.\<close>

lemma indexAllOf_cancelled_at:
  assumes nt: "nonThrowing op"
    and before: "\<forall>j<k. interrupts h (i + j * chunkSize (INDEXING_PARAMS type)) = []"
    and at: "interrupts h (i + k * chunkSize (INDEXING_PARAMS type)) = CancelRequested # rest"
    and more: "i + (k + 1) * chunkSize (INDEXING_PARAMS type) < length files"
    and run: "\<not> cancelIndexing w" "IndexingState.isIndexing (getIndexingState type (db w))"
  shows "IndexingState.progress (getIndexingState type
            (db (snd (indexAllOf type h (Some (progressWrapper type op)) files i n w))))
           = n + int ((k + 1) * chunkSize (INDEXING_PARAMS type))
       \<and> cancelIndexing (snd (indexAllOf type h (Some (progressWrapper type op)) files i n w))"
  using before at more run
proof (induction k arbitrary: i n w)
  case 0
  let ?cs = "chunkSize (INDEXING_PARAMS type)"
  let ?r = "indexChunk type h (Some (progressWrapper type op)) files i n w"
  from 0 have i: "i < length files" and at0: "interrupts h i = CancelRequested # rest"
    by simp_all
  have any: "isAnyIndexing (db w)"
    using "0.prems"(5) by (cases type) (simp_all add: isAnyIndexing_def)
  have ret: "fst ?r = Returned"
    using nt by (rule indexChunk_fields(6))
  have c: "cancelIndexing (snd (snd ?r))"
    by (simp add: indexChunk_fields afterDelay_request [OF at0 any])
  have len: "min (length files - i) ?cs = ?cs"
    using "0.prems"(3) by (auto simp: min_def)
  have p: "IndexingState.progress (getIndexingState type (db (snd (snd ?r)))) = n + int ?cs"
    by (simp add: indexChunk_fields total_assign_progress len)
  have "indexAllOf type h (Some (progressWrapper type op)) files i n w
        = indexAllOf type h (Some (progressWrapper type op)) files (i + ?cs) (fst (snd ?r)) (snd (snd ?r))"
    using i "0.prems"(4) ret by (rule indexAllOf_step)
  also have "\<dots> = (Returned, snd (snd ?r))"
    using c by (rule indexAllOf_cancelled)
  finally show ?case
    using c p by simp
next
  case (Suc k)
  let ?cs = "chunkSize (INDEXING_PARAMS type)"
  let ?r = "indexChunk type h (Some (progressWrapper type op)) files i n w"
  from Suc.prems have i: "i < length files" and q: "interrupts h i = []"
    by auto
  have ret: "fst ?r = Returned"
    using nt by (rule indexChunk_fields(6))
  have c: "\<not> cancelIndexing (snd (snd ?r))"
    using Suc.prems(4) by (simp add: indexChunk_fields afterDelay_quiet [OF q])
  have ix: "IndexingState.isIndexing (getIndexingState type (db (snd (snd ?r))))"
    using Suc.prems(5) by (simp add: indexChunk_fields afterDelay_quiet [OF q] total_assign_progress)
  have len: "min (length files - i) ?cs = ?cs"
    using Suc.prems(3) by (auto simp: min_def)
  have n': "fst (snd ?r) = n + int ?cs"
    by (simp add: indexChunk_fields len)
  have b': "\<forall>j<k. interrupts h (i + ?cs + j * ?cs) = []"
  proof (intro allI impI)
    fix j assume "j < k"
    then have "Suc j < Suc k" by simp
    with Suc.prems(1) have "interrupts h (i + Suc j * ?cs) = []"
      by blast
    then show "interrupts h (i + ?cs + j * ?cs) = []"
      by (simp add: add.assoc)
  qed
  have a': "interrupts h (i + ?cs + k * ?cs) = CancelRequested # rest"
    using Suc.prems(2) by (simp add: add.assoc)
  have m': "i + ?cs + (k + 1) * ?cs < length files"
    using Suc.prems(3) by (simp add: add.assoc)
  have eq: "indexAllOf type h (Some (progressWrapper type op)) files i n w
        = indexAllOf type h (Some (progressWrapper type op)) files (i + ?cs) (fst (snd ?r)) (snd (snd ?r))"
    using i Suc.prems(4) ret by (rule indexAllOf_step)
  from Suc.IH [OF b' a' m' c ix, of "fst (snd ?r)"] show ?case
    unfolding eq n' by (simp add: algebra_simps)
qed

text \<open>
  C4. \<^verbatim>\<open>indexSpecificType\<close> called while any collection is marked as being indexed
  returns at once and leaves the store, the file, the cancellation flag and the trace
  exactly as they were. And the lock invariant (at most one flag set in the store, in
  every envelope written so far and in the file) holds of the store after its
  constructor beside a file that satisfies it, and is kept by every operation of the
  engine and of the store: a pass of \<^verbatim>\<open>indexSpecificType\<close> (completed, cancelled or
  failed, whatever arrives during its delays), \<^verbatim>\<open>indexNote\<close>,
  \<^verbatim>\<open>updateNoteIfNeeded\<close>, \<^verbatim>\<open>removeNote\<close>, the request and the deferred clean-up of
  \<^verbatim>\<open>cancelBackgroundIndexing\<close>, \<^verbatim>\<open>save\<close>, \<^verbatim>\<open>reset\<close> and \<^verbatim>\<open>load\<close>. So no operation
  produces a state with two flags set.
\<close>

theorem indexing_lock_exclusive:
  "(isAnyIndexing (db w) \<longrightarrow> indexSpecificType type h onProgress w = (Returned, w))
   \<and> (lockInvariant w \<longrightarrow>
        lockInvariant (snd (indexSpecificType type h onProgress w))
        \<and> lockInvariant (indexNote h file s w)
        \<and> lockInvariant (updateNoteIfNeeded h file w)
        \<and> lockInvariant (removeNote p w)
        \<and> lockInvariant (cancelBackgroundIndexing w)
        \<and> lockInvariant (cancelCleanup w)
        \<and> lockInvariant (save w)
        \<and> lockInvariant (reset w)
        \<and> lockInvariant (load w))
   \<and> ((case f of Stored e \<Rightarrow> atMostOneIndexing e | other \<Rightarrow> True) \<longrightarrow>
        lockInvariant (startupWorld f now))"
proof -
  have "(case f of Stored e \<Rightarrow> atMostOneIndexing e | other \<Rightarrow> True) \<longrightarrow>
        lockInvariant (startupWorld f now)"
    by (simp add: lockInvariant_def startupWorld_def atMostOneIndexing_def getIndexingState_def
          createEmptyDatabase_def createEmptyState_def)
  moreover have "isAnyIndexing (db w) \<longrightarrow> indexSpecificType type h onProgress w = (Returned, w)"
    by (simp add: indexSpecificType_unfold)
  ultimately show ?thesis
    by (simp add: lockInvariant_indexSpecificType lockInvariant_indexNote
          lockInvariant_updateNoteIfNeeded lockInvariant_removeNote lockInvariant_cancel
          lockInvariant_save lockInvariant_reset lockInvariant_load)
qed

theorem indexing_lock_exclusive_witness:
  "indexSpecificType Headings (quietHost allEnabled [noteA]) None
       ((startupWorld Missing 1000)\<lparr>db := lockedEnvelope ''2.0.0'' (Some 900)\<rparr>)
     = (Returned, (startupWorld Missing 1000)\<lparr>db := lockedEnvelope ''2.0.0'' (Some 900)\<rparr>)
   \<and> lockInvariant (startupWorld (Stored (lockedEnvelope ''2.0.0'' (Some 900))) 1000)
   \<and> lockInvariant (load (startupWorld (Stored (lockedEnvelope ''2.0.0'' (Some 900))) 1000))
   \<and> lockInvariant (snd (indexSpecificType Titles (quietHost allEnabled [noteA]) None
         (startupWorld (Stored (lockedEnvelope ''2.0.0'' (Some 900))) 1000)))"
proof -
  let ?busy = "(startupWorld Missing 1000)\<lparr>db := lockedEnvelope ''2.0.0'' (Some 900)\<rparr>"
  let ?f = "Stored (lockedEnvelope ''2.0.0'' (Some 900))"
  let ?w = "startupWorld ?f 1000"
  let ?h = "quietHost allEnabled [noteA]"
  have busy: "isAnyIndexing (db ?busy)"
    by (simp add: isAnyIndexing_def lockedEnvelope_def getIndexingState_def)
  have ok: "case ?f of Stored e \<Rightarrow> atMostOneIndexing e | other \<Rightarrow> True"
    by (simp add: atMostOneIndexing_def lockedEnvelope_def getIndexingState_def createEmptyState_def)
  note a = indexing_lock_exclusive [of ?busy Headings ?h None noteA True "''a''" ?f 1000]
  from a busy have 1: "indexSpecificType Headings ?h None ?busy = (Returned, ?busy)"
    by blast
  note b = indexing_lock_exclusive [of ?w Titles ?h None noteA True "''a''" ?f 1000]
  from b ok have 2: "lockInvariant ?w"
    by blast
  from b 2 have 3: "lockInvariant (load ?w)"
    and 4: "lockInvariant (snd (indexSpecificType Titles ?h None ?w))"
    by blast+
  show ?thesis
    by (rule conjI [OF 1 conjI [OF 2 conjI [OF 3 4]]])
qed

text \<open>
  C10. A pass of \<^verbatim>\<open>indexSpecificType\<close> that starts with no collection marked, whose
  progress callback does not throw and whose file can be written, returns normally
  having run its completion path, whatever arrives during its delays: the persisted
  envelope records the collection with \<open>isIndexing = false\<close>, \<open>lastIndexed\<close> equal to the
  current time, the progress \<open>p\<close> that the loop reached and the full total; the store
  has the flag false and the same \<open>lastIndexed\<close>; and the trace ends with the write of
  that envelope, the update event with \<open>isActive = false\<close> and the settings-changed
  event. And if the first thing to arrive during the pass is a cancellation request,
  while the chunk number \<open>k\<close> waits and with further chunks left, whatever follows it,
  then the loop has returned early: the flag \<^verbatim>\<open>cancelIndexing\<close> is set and \<open>p\<close> is
  \<open>(k + 1) * chunkSize\<close>, less than the total. So a cancelled, partially indexed pass is
  recorded exactly like a completed one.
\<close>

theorem cancelled_pass_completes:
  assumes idle: "\<not> isAnyIndexing (db w)" and nt: "nonThrowing onProgress" and wr: "writable w"
  shows "\<exists>w' e es p. indexSpecificType type h onProgress w = (Returned, w')
     \<and> disk w' = Stored e
     \<and> \<not> IndexingState.isIndexing (getIndexingState type e)
     \<and> IndexingState.lastIndexed (getIndexingState type e) = clock w'
     \<and> IndexingState.progress (getIndexingState type e) = p
     \<and> IndexingState.total (getIndexingState type e) = int (length (markdownFiles h))
     \<and> \<not> IndexingState.isIndexing (getIndexingState type (db w'))
     \<and> IndexingState.lastIndexed (getIndexingState type (db w')) = clock w'
     \<and> trace w' = es @ [Written e,
           IndexingUpdate type False p (int (length (markdownFiles h))), SettingsChanged]
     \<and> ((\<forall>j<k. interrupts h (j * chunkSize (INDEXING_PARAMS type)) = [])
          \<and> interrupts h (k * chunkSize (INDEXING_PARAMS type)) = CancelRequested # rest
          \<and> (k + 1) * chunkSize (INDEXING_PARAMS type) < length (markdownFiles h)
        \<longrightarrow> cancelIndexing w' \<and> p = int ((k + 1) * chunkSize (INDEXING_PARAMS type)))"
proof -
  let ?cs = "chunkSize (INDEXING_PARAMS type)"
  let ?w3 = "passStart type h w"
  let ?r = "indexAllOf type h (Some (progressWrapper type onProgress)) (markdownFiles h) 0 0 ?w3"
  have ret: "fst ?r = Returned"
    using nt by (rule indexAllOf_returns)
  have run: "\<not> cancelIndexing ?w3" "IndexingState.isIndexing (getIndexingState type (db ?w3))"
    by (simp_all add: passStart_fields)
  have early: "cancelIndexing (snd ?r)
        \<and> IndexingState.progress (getIndexingState type (db (snd ?r))) = int ((k + 1) * ?cs)"
    if "(\<forall>j<k. interrupts h (j * ?cs) = []) \<and> interrupts h (k * ?cs) = CancelRequested # rest
        \<and> (k + 1) * ?cs < length (markdownFiles h)"
  proof -
    from that have "IndexingState.progress (getIndexingState type (db (snd ?r))) = 0 + int ((k + 1) * ?cs)
        \<and> cancelIndexing (snd ?r)"
      using run by (intro indexAllOf_cancelled_at [OF nt, where rest = rest]) simp_all
    then show ?thesis by simp
  qed
  have keep: "writable (snd ?r)"
    "IndexingState.total (getIndexingState type (db (snd ?r))) = int (length (markdownFiles h))"
    using indexAllOf_keeps [OF nt, of type h "markdownFiles h" 0 0 ?w3 type] wr
    by (simp_all add: passStart_fields)
  from passComplete_persisted [OF keep(1), of type] obtain e where
    e: "disk (passComplete type (snd ?r)) = Stored e"
       "getIndexingState type e
          = (getIndexingState type (db (snd ?r)))
              \<lparr>IndexingState.isIndexing := False, IndexingState.lastIndexed := clock (snd ?r)\<rparr>"
       "trace (passComplete type (snd ?r))
          = trace (snd ?r) @ [Written e,
              IndexingUpdate type False
                (IndexingState.progress (getIndexingState type (db (snd ?r))))
                (IndexingState.total (getIndexingState type (db (snd ?r)))),
              SettingsChanged]"
    by blast
  have res: "indexSpecificType type h onProgress w = (Returned, passComplete type (snd ?r))"
    using idle ret by (simp add: indexSpecificType_unfold Let_def)
  show ?thesis
    apply (rule exI [of _ "passComplete type (snd ?r)"])
    apply (rule exI [of _ e])
    apply (rule exI [of _ "trace (snd ?r)"])
    apply (rule exI [of _ "IndexingState.progress (getIndexingState type (db (snd ?r)))"])
    using early apply (simp add: res e keep passComplete_fields)
    done
qed

theorem cancelled_pass_completes_witness:
  "\<exists>w' e es.
     indexSpecificType Content
       (scheduleHost contentOnly tenNotes
          (\<lambda>i. if i = 2 then [CancelRequested, CleanupTimerFires] else []))
       None (startupWorld Missing 1000) = (Returned, w')
     \<and> disk w' = Stored e
     \<and> \<not> IndexingState.isIndexing (getIndexingState Content e)
     \<and> IndexingState.lastIndexed (getIndexingState Content e) = clock w'
     \<and> IndexingState.progress (getIndexingState Content e) = 4
     \<and> IndexingState.total (getIndexingState Content e) = 10
     \<and> \<not> IndexingState.isIndexing (getIndexingState Content (db w'))
     \<and> IndexingState.lastIndexed (getIndexingState Content (db w')) = clock w'
     \<and> trace w' = es @ [Written e, IndexingUpdate Content False 4 10, SettingsChanged]
     \<and> cancelIndexing w'"
proof -
  let ?h = "scheduleHost contentOnly tenNotes
              (\<lambda>i. if i = 2 then [CancelRequested, CleanupTimerFires] else [])"
  let ?w = "startupWorld Missing 1000"
  have cs: "chunkSize (INDEXING_PARAMS Content) = 2"
    by (simp add: INDEXING_PARAMS_def)
  have len: "length (markdownFiles ?h) = 10"
    by (simp add: scheduleHost_def quietHost_def tenNotes_def)
  have hyps: "\<not> isAnyIndexing (db ?w)" "nonThrowing None" "writable ?w"
    by (simp_all add: isAnyIndexing_def startupWorld_def createEmptyDatabase_def
          createEmptyState_def getIndexingState_def nonThrowing_def)
  have first: "(\<forall>j<1. interrupts ?h (j * chunkSize (INDEXING_PARAMS Content)) = [])
      \<and> interrupts ?h (1 * chunkSize (INDEXING_PARAMS Content)) = CancelRequested # [CleanupTimerFires]
      \<and> (1 + 1) * chunkSize (INDEXING_PARAMS Content) < length (markdownFiles ?h)"
    unfolding cs len by (simp add: scheduleHost_def)
  from cancelled_pass_completes [OF hyps, of Content ?h 1 "[CleanupTimerFires]"] first
  show ?thesis
    unfolding cs len by auto
qed

text \<open>
  As stated the claim fails for a request that has no effect. Six documents, chunks of
  two: when the clean-up timer of an earlier cancellation fires while the first chunk
  waits, it clears the marks, and the request that arrives while the second chunk waits
  does nothing, because \<^verbatim>\<open>cancelBackgroundIndexing\<close> acts only if a collection is
  marked; the flag stays unset and the loop handles all six documents. And a request
  that arrives while the last chunk waits sets the flag when no poll is left: again
  the pass records six documents of six.
\<close>

theorem cancelled_pass_counterexample:
  "length sixNotes = 6 \<and> chunkSize (INDEXING_PARAMS Content) = 2
   \<and> last (savedProgress Content (trace (snd
        (indexSpecificType Content
           (scheduleHost contentOnly sixNotes
              (\<lambda>i. if i = 0 then [CleanupTimerFires] else if i = 2 then [CancelRequested] else []))
           None (startupWorld Missing 1000))))) = 6
   \<and> \<not> cancelIndexing (snd
        (indexSpecificType Content
           (scheduleHost contentOnly sixNotes
              (\<lambda>i. if i = 0 then [CleanupTimerFires] else if i = 2 then [CancelRequested] else []))
           None (startupWorld Missing 1000)))
   \<and> last (savedProgress Content (trace (snd
        (indexSpecificType Content
           (scheduleHost contentOnly sixNotes (\<lambda>i. if i = 4 then [CancelRequested] else []))
           None (startupWorld Missing 1000))))) = 6"
proof -
  let ?stale = "scheduleHost contentOnly sixNotes
      (\<lambda>i. if i = 0 then [CleanupTimerFires] else if i = 2 then [CancelRequested] else [])"
  let ?late = "scheduleHost contentOnly sixNotes (\<lambda>i. if i = 4 then [CancelRequested] else [])"
  let ?w = "startupWorld Missing 1000"
  let ?cb = "Some (progressWrapper Content None)"
  have cs: "chunkSize (INDEXING_PARAMS Content) = 2"
    by (simp add: INDEXING_PARAMS_def)
  have six: "length sixNotes = 6"
    by (simp add: sixNotes_def)
  have files: "markdownFiles ?stale = sixNotes" "markdownFiles ?late = sixNotes"
    by (simp_all add: scheduleHost_def quietHost_def)
  have idle: "\<not> isAnyIndexing (db ?w)"
    by (simp add: isAnyIndexing_def startupWorld_def createEmptyDatabase_def
          createEmptyState_def getIndexingState_def)
  have nt: "nonThrowing None"
    by (simp add: nonThrowing_def)
  have pass: "indexSpecificType Content h None ?w
        = (Returned, passComplete Content
             (snd (indexAllOf Content h ?cb (markdownFiles h) 0 0 (passStart Content h ?w))))" for h
    using idle indexAllOf_returns [OF nt, of Content h "markdownFiles h" 0 0 "passStart Content h ?w"]
    by (simp add: indexSpecificType_unfold Let_def)
  have s: "IndexingState.progress (getIndexingState Content
              (db (snd (indexAllOf Content ?stale ?cb sixNotes 0 0 (passStart Content ?stale ?w)))))
            = 0 + int (length sixNotes - 0)
         \<and> \<not> cancelIndexing (snd (indexAllOf Content ?stale ?cb sixNotes 0 0 (passStart Content ?stale ?w)))"
    by (rule indexAllOf_stale [OF nt, where rest = "[]"])
       (simp_all add: scheduleHost_def six passStart_fields)
  have l: "IndexingState.progress (getIndexingState Content
              (db (snd (indexAllOf Content ?late ?cb sixNotes 0 0 (passStart Content ?late ?w)))))
            = 0 + int (length sixNotes - 0)"
    by (rule indexAllOf_last_request [OF nt, where k = 2])
       (simp_all add: scheduleHost_def six cs passStart_fields)
  have 1: "last (savedProgress Content (trace (snd (indexSpecificType Content ?stale None ?w)))) = 6"
    using s by (simp add: pass files passComplete_fields six)
  have 2: "\<not> cancelIndexing (snd (indexSpecificType Content ?stale None ?w))"
    using s by (simp add: pass files passComplete_fields)
  have 3: "last (savedProgress Content (trace (snd (indexSpecificType Content ?late None ?w)))) = 6"
    using l by (simp add: pass files passComplete_fields six)
  show ?thesis
    by (rule conjI [OF six conjI [OF cs conjI [OF 1 conjI [OF 2 3]]]])
qed

lemma indexSpecificType_quiet_saves:
  assumes "\<not> isAnyIndexing (db w)" "nonThrowing op" "quiet h"
  shows "savedProgress type (trace (snd (indexSpecificType type h op w)))
         = savedProgress type (trace w) @ [0]
           @ filter (\<lambda>k. k mod saveEvery (INDEXING_PARAMS type) = 0)
               (chunkEnds (chunkSize (INDEXING_PARAMS type)) (length (markdownFiles h)) 0 0)
           @ [int (length (markdownFiles h))]"
proof -
  let ?r = "indexAllOf type h (Some (progressWrapper type op)) (markdownFiles h) 0 0
              (passStart type h w)"
  have ret: "fst ?r = Returned"
    using assms(2) by (rule indexAllOf_returns)
  from indexAllOf_quiet [OF assms(2,3), of "passStart type h w" type "markdownFiles h" 0 0]
  have sp: "savedProgress type (trace (snd ?r))
          = savedProgress type (trace w) @ [0]
            @ filter (\<lambda>k. k mod saveEvery (INDEXING_PARAMS type) = 0)
                (chunkEnds (chunkSize (INDEXING_PARAMS type)) (length (markdownFiles h)) 0 0)"
    and pr: "IndexingState.progress (getIndexingState type (db (snd ?r)))
          = int (length (markdownFiles h))"
    by (simp_all add: passStart_fields)
  show ?thesis
    using assms(1) ret by (simp add: indexSpecificType_unfold Let_def passComplete_fields sp pr)
qed

lemma quiet_quietHost: "quiet (quietHost st files)"
  by (simp add: quiet_def quietHost_def)

text \<open>
  C2. The parameters of a content pass are chunk size 2, delay 50 ms and \<open>saveEvery\<close> 5.
  But the loop tests \<open>indexed % saveEvery\<close> only after a whole chunk, when the count is
  even: over ten new documents, with nothing interrupting, the envelope is written when
  the pass starts (progress 0), once in the loop (progress 10) and on completion
  (progress 10), and not after 5 documents.
\<close>

theorem content_pass_saves_every_ten:
  "INDEXING_PARAMS Content = \<lparr>chunkSize = 2, delayMs = 50, saveEvery = 5\<rparr>
   \<and> savedProgress Content
        (trace (snd (indexSpecificType Content (quietHost contentOnly tenNotes) None
                       (startupWorld Missing 1000))))
      = [0, 10, 10]"
proof -
  let ?h = "quietHost contentOnly tenNotes"
  let ?w = "startupWorld Missing 1000"
  have a: "\<not> isAnyIndexing (db ?w)"
    by (simp add: isAnyIndexing_def startupWorld_def createEmptyDatabase_def
          createEmptyState_def getIndexingState_def)
  have b: "nonThrowing None"
    by (simp add: nonThrowing_def)
  have len: "length (markdownFiles ?h) = 10"
    by (simp add: quietHost_def tenNotes_def)
  have t: "trace ?w = []"
    by (simp add: startupWorld_def)
  have ce: "chunkEnds 2 10 0 0 = [2, 4, 6, 8, 10]"
    by (simp add: chunkEnds.simps)
  have p: "INDEXING_PARAMS Content = \<lparr>chunkSize = 2, delayMs = 50, saveEvery = 5\<rparr>"
    by (simp add: INDEXING_PARAMS_def)
  from indexSpecificType_quiet_saves [OF a b quiet_quietHost, of Content contentOnly tenNotes]
  show ?thesis
    by (simp add: len t p ce savedProgress_def)
qed

end
